theory Spec2Isabelle
  imports Complex_Main "HOL-Library.Sublist" "HOL-Library.Word" "HOL-Library.AList"
begin

section \<open>The gallery page: keyboard suppression and single playing video\<close>

subsection \<open>The document-level keydown handler (page.tsx, handleKeyDown)\<close>

text \<open>
  The fields of a DOM KeyboardEvent the handler reads, and the flag that
  \<^verbatim>\<open>preventDefault()\<close> sets. Keydown events dispatched by the browser are
  cancelable, so a call of \<^verbatim>\<open>preventDefault()\<close> always sets the flag.
\<close>

record KeyboardEvent =
  key :: string
  ctrlKey :: bool
  shiftKey :: bool
  altKey :: bool
  metaKey :: bool
  defaultPrevented :: bool

definition preventDefault :: "KeyboardEvent \<Rightarrow> KeyboardEvent" where
  "preventDefault e = e\<lparr>defaultPrevented := True\<rparr>"

text \<open>
  The handler returns the event as it leaves it, and its return value:
  \<open>Some False\<close> for \<^verbatim>\<open>return false\<close>, \<open>None\<close> when it falls off the end.
\<close>

definition handleKeyDown :: "KeyboardEvent \<Rightarrow> KeyboardEvent \<times> bool option" where
  "handleKeyDown e =
     (if ctrlKey e \<and> key e = ''s'' then (preventDefault e, Some False)
      else if ctrlKey e \<and> shiftKey e \<and> key e = ''I'' then (preventDefault e, Some False)
      else if key e = ''F12'' then (preventDefault e, Some False)
      else if ctrlKey e \<and> shiftKey e \<and> key e = ''C'' then (preventDefault e, Some False)
      else if ctrlKey e \<and> key e = ''u'' then (preventDefault e, Some False)
      else (e, None))"

text \<open>
  The five combinations as the specification lists them: a modifier that a
  combination does not name is left unconstrained.
\<close>

definition suppressed_combination :: "KeyboardEvent \<Rightarrow> bool" where
  "suppressed_combination e \<longleftrightarrow>
     (ctrlKey e \<and> key e = ''s'') \<or>
     (ctrlKey e \<and> shiftKey e \<and> key e = ''I'') \<or>
     key e = ''F12'' \<or>
     (ctrlKey e \<and> shiftKey e \<and> key e = ''C'') \<or>
     (ctrlKey e \<and> key e = ''u'')"

subsection \<open>Pausing the previously playing video (page.tsx, handleVideoPlay)\<close>

text \<open>
  A video element is known by its identity. The page keeps one reference,
  \<^verbatim>\<open>currentlyPlayingVideoRef\<close>; every element carries its own
  \<^verbatim>\<open>paused\<close> flag.
\<close>

type_synonym video = nat

record page_state =
  currentlyPlayingVideoRef :: "video option"
  paused :: "video \<Rightarrow> bool"

definition pause :: "video \<Rightarrow> page_state \<Rightarrow> page_state" where
  "pause v s = s\<lparr>paused := (paused s)(v := True)\<rparr>"

definition handleVideoPlay :: "video \<Rightarrow> page_state \<Rightarrow> page_state" where
  "handleVideoPlay videoElement s =
     (let s1 = (case currentlyPlayingVideoRef s of
                  None \<Rightarrow> s
                | Some cur \<Rightarrow> if cur \<noteq> videoElement then pause cur s else s)
      in s1\<lparr>currentlyPlayingVideoRef := Some videoElement\<rparr>)"

text \<open>
  What happens to the page: an element starts playing, which clears its
  \<^verbatim>\<open>paused\<close> flag and fires \<^verbatim>\<open>onPlay\<close>, wired to
  \<^verbatim>\<open>handleVideoPlay\<close> for every video of the grid and of the modal; or
  the user pauses an element, which no handler of the page observes.
\<close>

datatype video_event = Play video | Pause video

fun step :: "page_state \<Rightarrow> video_event \<Rightarrow> page_state" where
  "step s (Play v) = handleVideoPlay v (s\<lparr>paused := (paused s)(v := False)\<rparr>)"
| "step s (Pause v) = pause v s"

definition run :: "video_event list \<Rightarrow> page_state \<Rightarrow> page_state" where
  "run evs s = foldl step s evs"

definition initial_page :: page_state where
  "initial_page = \<lparr>currentlyPlayingVideoRef = None, paused = (\<lambda>_. True)\<rparr>"

definition playing :: "page_state \<Rightarrow> video set" where
  "playing s = {v. \<not> paused s v}"

definition tracked :: "page_state \<Rightarrow> bool" where
  "tracked s \<longleftrightarrow> playing s \<subseteq> set_option (currentlyPlayingVideoRef s)"

section \<open>Strings and paths\<close>

text \<open>
  File names, paths and header values are strings of characters.
  \<^verbatim>\<open>String.prototype.split\<close> with a one-character separator returns the
  pieces between the separators, and one piece (the whole string) when there
  is none.
\<close>

fun split_on :: "char \<Rightarrow> string \<Rightarrow> string list" where
  "split_on c [] = [[]]"
| "split_on c (x # xs) =
     (if x = c then [] # split_on c xs
      else (case split_on c xs of [] \<Rightarrow> [[x]] | p # ps \<Rightarrow> (x # p) # ps))"

text \<open>\<^verbatim>\<open>Array.prototype.join\<close>.\<close>

fun join_with :: "string \<Rightarrow> string list \<Rightarrow> string" where
  "join_with sep [] = []"
| "join_with sep [s] = s"
| "join_with sep (s # t # ss) = s @ sep @ join_with sep (t # ss)"

text \<open>
  \<^verbatim>\<open>toLowerCase\<close> on the letters A to Z. No character outside ASCII
  lowers to a letter of the extension tables below, so the lookups of the
  handlers see the same result.
\<close>

definition toLowerCase_char :: "char \<Rightarrow> char" where
  "toLowerCase_char c =
     (case map_of (zip ''ABCDEFGHIJKLMNOPQRSTUVWXYZ'' ''abcdefghijklmnopqrstuvwxyz'') c of
        None \<Rightarrow> c | Some l \<Rightarrow> l)"

definition toLowerCase :: "string \<Rightarrow> string" where
  "toLowerCase s = map toLowerCase_char s"

text \<open>\<^verbatim>\<open>Number.prototype.toString\<close> of a length: its decimal digits.\<close>

definition digit :: "nat \<Rightarrow> char" where
  "digit d = ''0123456789'' ! (d mod 10)"

function number_toString :: "nat \<Rightarrow> string" where
  "number_toString n =
     (if n < 10 then [digit n] else number_toString (n div 10) @ [digit (n mod 10)])"
  by pat_completeness auto
termination
  by (relation "measure (\<lambda>n. n)") auto

text \<open>
  Node's \<^verbatim>\<open>path.join\<close> and \<^verbatim>\<open>path.normalize\<close> (POSIX). The library walks
  the segments between slashes: an empty segment and \<^verbatim>\<open>.\<close> are dropped,
  \<^verbatim>\<open>..\<close> removes the segment before it, and is kept only in a relative
  path that has nothing left to remove.
\<close>

definition normalize_step :: "bool \<Rightarrow> string list \<Rightarrow> string \<Rightarrow> string list" where
  "normalize_step allowAboveRoot res seg =
     (if seg = [] \<or> seg = ''.'' then res
      else if seg = ''..'' then
        (if res \<noteq> [] \<and> last res \<noteq> ''..'' then butlast res
         else if allowAboveRoot then res @ [''..''] else res)
      else res @ [seg])"

definition normalizeString :: "string \<Rightarrow> bool \<Rightarrow> string" where
  "normalizeString path allowAboveRoot =
     join_with ''/'' (foldl (normalize_step allowAboveRoot) [] (split_on CHR ''/'' path))"

definition normalize :: "string \<Rightarrow> string" where
  "normalize path =
     (if path = [] then ''.''
      else
        let isAbsolute = (hd path = CHR ''/'');
            trailingSeparator = (last path = CHR ''/'');
            p = normalizeString path (\<not> isAbsolute)
        in if p = [] then (if isAbsolute then ''/'' else if trailingSeparator then ''./'' else ''.'')
           else (if isAbsolute then ''/'' else []) @ p @ (if trailingSeparator then ''/'' else []))"

definition join :: "string list \<Rightarrow> string" where
  "join args =
     (let joined = join_with ''/'' (filter (\<lambda>a. a \<noteq> []) args)
      in if joined = [] then ''.'' else normalize joined)"

text \<open>
  A path lies inside a folder when it is the folder or continues it after a
  separator.
\<close>

definition inside :: "string \<Rightarrow> string \<Rightarrow> bool" where
  "inside folder p \<longleftrightarrow> p = folder \<or> prefix (folder @ ''/'') p"

section \<open>The file system\<close>

text \<open>
  The handlers read and write the server's file system. A directory lists its
  entries in directory order. Permissions and links are not part of the
  model: an operation fails for the shape of the tree only.
\<close>

type_synonym byte = "8 word"

datatype node = File "byte list" | Dir "(string \<times> node) list"

datatype fs_error = ENOENT | ENOTDIR | EISDIR | EEXIST

fun lookup :: "node \<Rightarrow> string list \<Rightarrow> node option" where
  "lookup n [] = Some n"
| "lookup (File b) (s # ss) = None"
| "lookup (Dir es) (s # ss) = (case map_of es s of None \<Rightarrow> None | Some c \<Rightarrow> lookup c ss)"

definition segments :: "string \<Rightarrow> string list" where
  "segments p = filter (\<lambda>s. s \<noteq> []) (split_on CHR ''/'' p)"

definition trailing_slash :: "string \<Rightarrow> bool" where
  "trailing_slash p \<longleftrightarrow> p \<noteq> [] \<and> last p = CHR ''/''"

text \<open>What an absolute, normalised path names; a file is not found under a trailing slash.\<close>

definition stat :: "node \<Rightarrow> string \<Rightarrow> node option" where
  "stat fs p =
     (case lookup fs (segments p) of
        None \<Rightarrow> None
      | Some (File b) \<Rightarrow> if trailing_slash p then None else Some (File b)
      | Some (Dir es) \<Rightarrow> Some (Dir es))"

definition existsSync :: "node \<Rightarrow> string \<Rightarrow> bool" where
  "existsSync fs p \<longleftrightarrow> stat fs p \<noteq> None"

definition readFile :: "node \<Rightarrow> string \<Rightarrow> fs_error + byte list" where
  "readFile fs p =
     (case stat fs p of
        None \<Rightarrow> Inl ENOENT
      | Some (File b) \<Rightarrow> Inr b
      | Some (Dir es) \<Rightarrow> Inl EISDIR)"

definition readdir :: "node \<Rightarrow> string \<Rightarrow> fs_error + string list" where
  "readdir fs p =
     (case stat fs p of
        None \<Rightarrow> Inl ENOENT
      | Some (File b) \<Rightarrow> Inl ENOTDIR
      | Some (Dir es) \<Rightarrow> Inr (map fst es))"





section \<open>The route handlers\<close>

text \<open>
  A handler answers with \<^verbatim>\<open>NextResponse.json(body, { status })\<close>, status 200
  when none is given, or with \<^verbatim>\<open>new NextResponse(buffer, { headers })\<close>.
\<close>

datatype json = JString string | JBool bool | JStrings "string list"

datatype response =
    JsonResponse nat "(string \<times> json) list"
  | BufferResponse "(string \<times> string) list" "byte list"

text \<open>
  \<^verbatim>\<open>searchParams.get\<close> gives \<open>None\<close> for a parameter the URL does not
  have. All three handlers choose the folder the same way.
\<close>

definition folderPath :: "string \<Rightarrow> string option \<Rightarrow> string" where
  "folderPath cwd type =
     (let publicPath = join [cwd, ''public'']
      in if type = Some ''images'' then join [publicPath, ''images'']
         else join [publicPath, ''videos''])"

subsection \<open>GET /api/files (api/files/route.ts)\<close>

text \<open>
  The two regular expressions, \<^verbatim>\<open>/\.(jpg|jpeg|png|gif|webp|svg)$/i\<close> and
  \<^verbatim>\<open>/\.(mp4|webm|ogg|mov)$/i\<close>: a dot and one of the alternatives at the end
  of the name, letters compared without case. Of the calls in the handler's
  \<^verbatim>\<open>try\<close> block only \<^verbatim>\<open>readdir\<close> can throw.
\<close>

definition image_extensions :: "string list" where
  "image_extensions = [''jpg'', ''jpeg'', ''png'', ''gif'', ''webp'', ''svg'']"

definition video_extensions :: "string list" where
  "video_extensions = [''mp4'', ''webm'', ''ogg'', ''mov'']"

definition regex_test :: "string list \<Rightarrow> string \<Rightarrow> bool" where
  "regex_test alternatives file \<longleftrightarrow>
     list_ex (\<lambda>e. suffix (CHR ''.'' # e) (toLowerCase file)) alternatives"

definition files_GET :: "string \<Rightarrow> node \<Rightarrow> string option \<Rightarrow> response" where
  "files_GET cwd fs type =
     (case readdir fs (folderPath cwd type) of
        Inl e \<Rightarrow> JsonResponse 500 [(''error'', JString ''Failed to read files'')]
      | Inr files \<Rightarrow>
          JsonResponse 200
            [(''files'', JStrings (filter (\<lambda>file.
                if type = Some ''images'' then regex_test image_extensions file
                else regex_test video_extensions file) files))])"

subsection \<open>GET /api/media (the media route)\<close>

definition imageTypes :: "(string \<times> string) list" where
  "imageTypes =
     [(''jpg'', ''image/jpeg''), (''jpeg'', ''image/jpeg''), (''png'', ''image/png''),
      (''gif'', ''image/gif''), (''webp'', ''image/webp''), (''svg'', ''image/svg+xml'')]"

definition videoTypes :: "(string \<times> string) list" where
  "videoTypes =
     [(''mp4'', ''video/mp4''), (''webm'', ''video/webm''), (''ogg'', ''video/ogg''),
      (''mov'', ''video/quicktime'')]"

text \<open>
  The tables are object literals, and \<^verbatim>\<open>table[key]\<close> also finds what an
  object inherits from \<^verbatim>\<open>Object.prototype\<close>. Such a value is not a string;
  it is given here as the string that the response header receives for it.
\<close>

definition prototype_functions :: "string list" where
  "prototype_functions =
     [''__defineGetter__'', ''__defineSetter__'', ''hasOwnProperty'', ''__lookupGetter__'',
      ''__lookupSetter__'', ''isPrototypeOf'', ''propertyIsEnumerable'', ''toString'',
      ''valueOf'', ''toLocaleString'']"

definition inherited :: "string \<Rightarrow> string option" where
  "inherited k =
     (if k = ''constructor'' then Some ''function Object() { [native code] }''
      else if k = ''__proto__'' then Some ''[object Object]''
      else if k \<in> set prototype_functions then Some (''function '' @ k @ ''() { [native code] }'')
      else None)"

definition property :: "(string \<times> string) list \<Rightarrow> string \<Rightarrow> string option" where
  "property table k = (case map_of table k of Some v \<Rightarrow> Some v | None \<Rightarrow> inherited k)"

text \<open>\<^verbatim>\<open>fileName.split('.').pop()?.toLowerCase()\<close>: the piece after the last dot, or the
  whole name when it has no dot.\<close>

definition extension :: "string \<Rightarrow> string" where
  "extension fileName = toLowerCase (last (split_on CHR ''.'' fileName))"

definition contentType :: "string \<Rightarrow> string \<Rightarrow> string" where
  "contentType type fileName =
     (let ext = extension fileName
      in if type = ''images''
         then (case property imageTypes ext of Some v \<Rightarrow> v | None \<Rightarrow> ''image/jpeg'')
         else (case property videoTypes ext of Some v \<Rightarrow> v | None \<Rightarrow> ''video/mp4''))"

definition missing_parameter :: response where
  "missing_parameter = JsonResponse 400 [(''error'', JString ''Missing file or type parameter'')]"

definition file_not_found :: response where
  "file_not_found = JsonResponse 404 [(''error'', JString ''File not found'')]"

definition failed_to_serve :: response where
  "failed_to_serve = JsonResponse 500 [(''error'', JString ''Failed to serve file'')]"

definition media_headers :: "string \<Rightarrow> string \<Rightarrow> byte list \<Rightarrow> (string \<times> string) list" where
  "media_headers type fileName fileBuffer =
     [(''Content-Type'', contentType type fileName),
      (''Content-Length'', number_toString (length fileBuffer)),
      (''Cache-Control'', ''private, no-cache, no-store, must-revalidate''),
      (''Pragma'', ''no-cache''),
      (''Expires'', ''0'')]"

text \<open>
  \<^verbatim>\<open>!fileName || !type\<close> holds for a parameter that is absent and for one
  that is the empty string. Of the calls in the \<^verbatim>\<open>try\<close> block only
  \<^verbatim>\<open>readFile\<close> can throw.
\<close>

definition media_GET :: "string \<Rightarrow> node \<Rightarrow> string option \<Rightarrow> string option \<Rightarrow> response" where
  "media_GET cwd fs file type =
     (case file of
        None \<Rightarrow> missing_parameter
      | Some fileName \<Rightarrow>
          (case type of
             None \<Rightarrow> missing_parameter
           | Some t \<Rightarrow>
               if fileName = [] \<or> t = [] then missing_parameter
               else
                 let folder = folderPath cwd (Some t);
                     filePath = join [folder, fileName]
                 in if \<not> existsSync fs filePath \<or> \<not> prefix folder filePath then file_not_found
                    else (case readFile fs filePath of
                            Inl e \<Rightarrow> failed_to_serve
                          | Inr fileBuffer \<Rightarrow>
                              BufferResponse (media_headers t fileName fileBuffer) fileBuffer)))"

subsection \<open>POST /api/upload (the upload route)\<close>







section \<open>The media display component\<close>

subsection \<open>Numbers\<close>

text \<open>
  A JavaScript number that is not negative, as the sizes and the ratios of
  sizes below are: a real number, or the \<^verbatim>\<open>Infinity\<close> and \<^verbatim>\<open>NaN\<close> that a
  quotient can be.
\<close>

datatype number = Finite real | Infinity | NaN

fun greater_number :: "number \<Rightarrow> number \<Rightarrow> bool" where
  "greater_number (Finite a) (Finite b) = (a > b)"
| "greater_number Infinity (Finite b) = True"
| "greater_number a b = False"

text \<open>
  Assigning to \<^verbatim>\<open>canvas.width\<close> or \<^verbatim>\<open>canvas.height\<close> converts the number to
  an unsigned long (\<^verbatim>\<open>NaN\<close> and \<^verbatim>\<open>Infinity\<close> to 0, anything else cut to its
  integer part, modulo \<open>2\<^sup>3\<^sup>2\<close>), and a value above \<open>2\<^sup>3\<^sup>1 - 1\<close> is replaced
  by the attribute's default, 300 for the width and 150 for the height.
\<close>

definition to_unsigned_long :: "number \<Rightarrow> nat" where
  "to_unsigned_long x = (case x of Finite r \<Rightarrow> nat (\<lfloor>r\<rfloor> mod 2 ^ 32) | Infinity \<Rightarrow> 0 | NaN \<Rightarrow> 0)"

definition set_dimension :: "nat \<Rightarrow> number \<Rightarrow> nat" where
  "set_dimension fallback x =
     (let n = to_unsigned_long x in if n > 2147483647 then fallback else n)"

subsection \<open>Machine arithmetic\<close>

text \<open>
  The component computes with IEEE 754 doubles. The sum, the difference, the
  product and the quotient of two numbers are the exact results rounded to a
  number; \<^verbatim>\<open>Math.sqrt\<close>, \<^verbatim>\<open>Math.cos\<close> and \<^verbatim>\<open>Math.sin\<close> are approximations
  that the implementation chooses, and \<^verbatim>\<open>Math.PI\<close> is a number near \<open>\<pi>\<close>. The
  rounding, the approximations and that number are parameters of the model,
  which assumes nothing of them. A decimal literal such as \<^verbatim>\<open>0.06\<close> denotes
  the rounded value; 1.5 and the integer literals are numbers and denote
  themselves. Negation, comparison, \<^verbatim>\<open>Math.max\<close>, \<^verbatim>\<open>Math.min\<close>,
  \<^verbatim>\<open>Math.ceil\<close> and division by 2 or by 4 are exact.

  The sizes of a canvas are below \<open>2\<^sup>3\<^sup>1\<close> and the widths of a text are of
  that order, so a sum, a difference or a product of the quantities below is
  a number again. A quotient is not when its divisor is zero, or so small
  that the exact quotient is beyond every number (it overflows); the
  operands of a quotient below are never negative.
\<close>

record arithmetic =
  rounded :: "real \<Rightarrow> real"
  overflows :: "real \<Rightarrow> bool"
  Math_sqrt :: "real \<Rightarrow> real"
  Math_cos :: "real \<Rightarrow> real"
  Math_sin :: "real \<Rightarrow> real"
  Math_PI :: real

definition machine_plus :: "arithmetic \<Rightarrow> real \<Rightarrow> real \<Rightarrow> real" where
  "machine_plus A a b = rounded A (a + b)"

definition machine_minus :: "arithmetic \<Rightarrow> real \<Rightarrow> real \<Rightarrow> real" where
  "machine_minus A a b = rounded A (a - b)"

definition machine_times :: "arithmetic \<Rightarrow> real \<Rightarrow> real \<Rightarrow> real" where
  "machine_times A a b = rounded A (a * b)"

definition machine_divide :: "arithmetic \<Rightarrow> real \<Rightarrow> real \<Rightarrow> number" where
  "machine_divide A a b =
     (if b = 0 then (if a = 0 then NaN else Infinity)
      else if overflows A (a / b) then Infinity
      else Finite (rounded A (a / b)))"

text \<open>The same operations when one operand is the result of a quotient.\<close>

definition Math_ceil :: "number \<Rightarrow> number" where
  "Math_ceil x = (case x of Finite q \<Rightarrow> Finite (real_of_int \<lceil>q\<rceil>) | Infinity \<Rightarrow> Infinity | NaN \<Rightarrow> NaN)"

definition plus_number :: "arithmetic \<Rightarrow> number \<Rightarrow> real \<Rightarrow> number" where
  "plus_number A x b =
     (case x of Finite a \<Rightarrow> Finite (machine_plus A a b) | Infinity \<Rightarrow> Infinity | NaN \<Rightarrow> NaN)"

definition machine_times_number :: "arithmetic \<Rightarrow> real \<Rightarrow> number \<Rightarrow> number" where
  "machine_times_number A a x =
     (case x of
        Finite b \<Rightarrow> Finite (machine_times A a b)
      | Infinity \<Rightarrow> (if a = 0 then NaN else Infinity)
      | NaN \<Rightarrow> NaN)"

definition machine_divide_number :: "arithmetic \<Rightarrow> real \<Rightarrow> number \<Rightarrow> number" where
  "machine_divide_number A a x =
     (case x of Finite b \<Rightarrow> machine_divide A a b | Infinity \<Rightarrow> Finite 0 | NaN \<Rightarrow> NaN)"

subsection \<open>The size of the canvas\<close>

text \<open>
  The container is the parent element of the canvas, \<open>None\<close> when it has
  none; the image is the loaded \<^verbatim>\<open>HTMLImageElement\<close>.
\<close>

record element_box =
  clientWidth :: nat
  clientHeight :: nat

record image =
  img_width :: nat
  img_height :: nat

text \<open>
  The display size in the component with the \<^verbatim>\<open>fullSize\<close> property. In the
  branch without \<^verbatim>\<open>fullSize\<close> the constant \<^verbatim>\<open>MAX_RESOLUTION\<close> is 800.
\<close>

definition displaySize :: "arithmetic \<Rightarrow> bool \<Rightarrow> element_box option \<Rightarrow> image \<Rightarrow> number \<times> number" where
  "displaySize A fullSize container img =
     (let imgAspect = machine_divide A (real (img_width img)) (real (img_height img));
          containerWidth = (case container of None \<Rightarrow> img_width img | Some c \<Rightarrow> clientWidth c);
          containerHeight = (case container of None \<Rightarrow> img_height img | Some c \<Rightarrow> clientHeight c);
          containerAspect = machine_divide A (real containerWidth) (real containerHeight)
      in if fullSize then
           (if greater_number imgAspect containerAspect
            then (Finite (real containerWidth), machine_divide_number A (real containerWidth) imgAspect)
            else (machine_times_number A (real containerHeight) imgAspect, Finite (real containerHeight)))
         else
           (if containerWidth > 800 \<or> containerHeight > 800 then
              (if containerWidth > containerHeight
               then (Finite 800, machine_divide_number A 800 imgAspect)
               else (machine_times_number A 800 imgAspect, Finite 800))
            else (Finite (real containerWidth), Finite (real containerHeight))))"

text \<open>
  The display size in the component without the \<^verbatim>\<open>fullSize\<close> property
  (components/MediaDisplay.tsx): the aspect is the container's.
\<close>

definition displaySize_container_aspect ::
  "arithmetic \<Rightarrow> element_box option \<Rightarrow> image \<Rightarrow> number \<times> number" where
  "displaySize_container_aspect A container img =
     (let displayWidth = (case container of None \<Rightarrow> img_width img | Some c \<Rightarrow> clientWidth c);
          displayHeight = (case container of None \<Rightarrow> img_height img | Some c \<Rightarrow> clientHeight c)
      in if displayWidth > 800 \<or> displayHeight > 800 then
           (let aspect = machine_divide A (real displayWidth) (real displayHeight)
            in if displayWidth > displayHeight
               then (Finite 800, machine_divide_number A 800 aspect)
               else (machine_times_number A 800 aspect, Finite 800))
         else (Finite (real displayWidth), Finite (real displayHeight)))"

subsection \<open>Drawing\<close>

text \<open>
  The calls on the 2D context, in the order they are made.
  \<^verbatim>\<open>drawImage\<close> returns at once, drawing nothing, when one of its arguments
  is not finite: that call is \<open>DrawImageNonFinite\<close>.
\<close>

datatype draw_op =
    ImageSmoothing bool string
  | ClearRect real real real real
  | DrawImage real real real real
  | DrawImageNonFinite
  | DrawWatermarkImage real real real real
  | Save
  | Restore
  | GlobalAlpha real
  | Font real
  | FillStyle string
  | StrokeStyle string
  | LineWidth real
  | TextAlign string
  | TextBaseline string
  | Translate real real
  | Rotate real
  | StrokeText string real real
  | FillText string real real

text \<open>
  \<^verbatim>\<open>for (let i = from; i < to; i++)\<close>, collecting what the body draws. The
  counter is a number, and \<^verbatim>\<open>i++\<close> is the machine's \<open>i + 1\<close>: the loop ends
  only if the counter gets past \<open>to\<close>, and its result is \<open>None\<close> when it
  does not end, or when its body does not.
\<close>

partial_function (option) for_loop ::
  "arithmetic \<Rightarrow> (real \<Rightarrow> draw_op list option) \<Rightarrow> real \<Rightarrow> real \<Rightarrow> draw_op list \<Rightarrow> draw_op list option" where
  "for_loop A body i to drawn =
     (if i < to
      then (case body i of
              None \<Rightarrow> None
            | Some ops \<Rightarrow> for_loop A body (machine_plus A i 1) to (drawn @ ops))
      else Some drawn)"

text \<open>
  \<^verbatim>\<open>for (let i = -steps; i < steps; i++)\<close>. When \<^verbatim>\<open>steps\<close> is \<^verbatim>\<open>Infinity\<close>
  the counter starts at \<^verbatim>\<open>-Infinity\<close> and stays there, so the loop does not
  end; when it is \<^verbatim>\<open>NaN\<close> the test \<^verbatim>\<open>i < steps\<close> fails at once.
\<close>

definition for_steps ::
  "arithmetic \<Rightarrow> number \<Rightarrow> (real \<Rightarrow> draw_op list option) \<Rightarrow> draw_op list option" where
  "for_steps A steps body =
     (case steps of
        Finite s \<Rightarrow> for_loop A body (- s) s []
      | Infinity \<Rightarrow> None
      | NaN \<Rightarrow> Some [])"

text \<open>
  The watermark block, the same in \<^verbatim>\<open>drawImageToCanvas\<close> and in
  \<^verbatim>\<open>drawVideoWatermark\<close>, for a canvas of the given width and height.
  \<^verbatim>\<open>measureText\<close> gives the width of a text at a font size.
\<close>

definition watermark_setup :: "arithmetic \<Rightarrow> real \<Rightarrow> draw_op list" where
  "watermark_setup A fontSize =
     [Save, GlobalAlpha (rounded A 0.3), Font fontSize, FillStyle ''white'',
      StrokeStyle ''rgba(0, 0, 0, 0.3)'', LineWidth 1, TextAlign ''center'', TextBaseline ''middle'']"

definition draw_watermark ::
  "arithmetic \<Rightarrow> (real \<Rightarrow> string \<Rightarrow> real) \<Rightarrow> string \<Rightarrow> nat \<Rightarrow> nat \<Rightarrow> draw_op list option" where
  "draw_watermark A measureText watermarkText canvas_width canvas_height =
     (let fontSize = max 20 (machine_times A (real (min canvas_width canvas_height)) (rounded A 0.06));
          textWidth = measureText fontSize watermarkText;
          textHeight = fontSize;
          spacingX = machine_times A textWidth 1.5;
          spacingY = machine_times A textHeight 2;
          angle = - Math_PI A / 4;
          diagonal = Math_sqrt A
            (machine_plus A (machine_times A (real canvas_width) (real canvas_width))
                            (machine_times A (real canvas_height) (real canvas_height)));
          stepsX = plus_number A (Math_ceil (machine_divide A diagonal spacingX)) 2;
          stepsY = plus_number A (Math_ceil (machine_divide A diagonal spacingY)) 2
      in case
           for_steps A stepsX (\<lambda>i. for_steps A stepsY (\<lambda>j.
             (let x = machine_minus A
                        (machine_plus A (real canvas_width / 2)
                           (machine_times A (machine_times A i spacingX) (Math_cos A angle)))
                        (machine_times A (machine_times A j spacingY) (Math_sin A angle));
                  y = machine_plus A
                        (machine_plus A (real canvas_height / 2)
                           (machine_times A (machine_times A i spacingX) (Math_sin A angle)))
                        (machine_times A (machine_times A j spacingY) (Math_cos A angle))
              in Some (if x > - textWidth \<and> x < machine_plus A (real canvas_width) textWidth \<and>
                          y > - textHeight \<and> y < machine_plus A (real canvas_height) textHeight
                       then [Save, Translate x y, Rotate angle,
                             StrokeText watermarkText 0 0, FillText watermarkText 0 0, Restore]
                       else []))))
         of None \<Rightarrow> None
          | Some stamps \<Rightarrow> Some (watermark_setup A fontSize @ stamps @ [Restore]))"

text \<open>
  The picture itself: the smoothing quality, then the canvas cleared and the
  image drawn over all of it.
\<close>

definition picture :: "bool \<Rightarrow> nat \<Rightarrow> nat \<Rightarrow> draw_op list" where
  "picture fullSize w h =
     [ImageSmoothing True (if fullSize then ''high'' else ''low''),
      ClearRect 0 0 (real w) (real h), DrawImage 0 0 (real w) (real h)]"

text \<open>
  What a drawing function leaves behind: the canvas as it set it (\<open>None\<close>
  when it returned before touching the canvas), with the values it gave to
  the style of the canvas, and the calls on the context. The whole result is
  \<open>None\<close> when the function does not return.
\<close>

datatype css_value = Keyword string | Pixels real

record canvas_state =
  pixel_width :: nat
  pixel_height :: nat
  css :: "(string \<times> css_value) list"

definition drawImageToCanvas ::
  "arithmetic \<Rightarrow> bool \<Rightarrow> string \<Rightarrow> (real \<Rightarrow> string \<Rightarrow> real) \<Rightarrow> bool \<Rightarrow> element_box option \<Rightarrow>
   image option \<Rightarrow> bool \<Rightarrow> (canvas_state option \<times> draw_op list) option" where
  "drawImageToCanvas A fullSize watermarkText measureText canvas_mounted container imageRef has_context =
     (case imageRef of
        None \<Rightarrow> Some (None, [])
      | Some img \<Rightarrow>
          if \<not> canvas_mounted then Some (None, [])
          else
            (let w = set_dimension 300 (fst (displaySize A fullSize container img));
                 h = set_dimension 150 (snd (displaySize A fullSize container img));
                 canvas = \<lparr>pixel_width = w, pixel_height = h,
                   css = (case container of
                            None \<Rightarrow> []
                          | Some c \<Rightarrow>
                              if fullSize
                              then [(''width'', Keyword ''auto''), (''height'', Keyword ''auto''),
                                    (''maxWidth'', Keyword ''100%''), (''maxHeight'', Keyword ''100%'')]
                              else [(''width'', Keyword ''100%''), (''height'', Keyword ''100%'')])\<rparr>
             in if \<not> has_context then Some (Some canvas, [])
                else if watermarkText = [] then Some (Some canvas, picture fullSize w h)
                else (case draw_watermark A measureText watermarkText w h of
                        None \<Rightarrow> None
                      | Some watermark \<Rightarrow> Some (Some canvas, picture fullSize w h @ watermark))))"

text \<open>
  \<^verbatim>\<open>drawVideoWatermark\<close> of the same component; the rectangle is the
  video element's \<^verbatim>\<open>getBoundingClientRect()\<close>, \<open>None\<close> when the element is
  not mounted.
\<close>

definition drawVideoWatermark ::
  "arithmetic \<Rightarrow> bool \<Rightarrow> string \<Rightarrow> (real \<Rightarrow> string \<Rightarrow> real) \<Rightarrow> bool \<Rightarrow> (real \<times> real) option \<Rightarrow> bool \<Rightarrow>
   (canvas_state option \<times> draw_op list) option" where
  "drawVideoWatermark A fullSize watermarkText measureText canvas_mounted videoRect has_context =
     (case videoRect of
        None \<Rightarrow> Some (None, [])
      | Some (width, height) \<Rightarrow>
          if \<not> canvas_mounted \<or> watermarkText = [] then Some (None, [])
          else if width = 0 \<or> height = 0 then Some (None, [])
          else
            (let w = set_dimension 300 (Finite width);
                 h = set_dimension 150 (Finite height);
                 canvas = \<lparr>pixel_width = w, pixel_height = h,
                   css = (if fullSize
                          then [(''width'', Pixels width), (''height'', Pixels height),
                                (''position'', Keyword ''absolute''), (''top'', Keyword ''50%''),
                                (''left'', Keyword ''50%''),
                                (''transform'', Keyword ''translate(-50%, -50%)'')]
                          else [(''width'', Keyword ''100%''), (''height'', Keyword ''100%'')])\<rparr>
             in if \<not> has_context then Some (Some canvas, [])
                else (case draw_watermark A measureText watermarkText w h of
                        None \<Rightarrow> None
                      | Some watermark \<Rightarrow>
                          Some (Some canvas, ClearRect 0 0 (real w) (real h) # watermark))))"

subsection \<open>Drawing with a watermark image (components/MediaDisplay.tsx)\<close>

text \<open>
  In components/MediaDisplay.tsx the picture covers the canvas: it is scaled
  to the canvas's height or width, whichever leaves nothing uncovered, and
  centred.
\<close>

definition cover :: "arithmetic \<Rightarrow> image \<Rightarrow> nat \<Rightarrow> nat \<Rightarrow> draw_op" where
  "cover A img canvas_width canvas_height =
     (let imgAspect = machine_divide A (real (img_width img)) (real (img_height img));
          canvasAspect = machine_divide A (real canvas_width) (real canvas_height)
      in if greater_number imgAspect canvasAspect then
           (case machine_times_number A (real canvas_height) imgAspect of
              Finite drawWidth \<Rightarrow>
                DrawImage (machine_minus A (real canvas_width) drawWidth / 2) 0 drawWidth (real canvas_height)
            | Infinity \<Rightarrow> DrawImageNonFinite
            | NaN \<Rightarrow> DrawImageNonFinite)
         else
           (case machine_divide_number A (real canvas_width) imgAspect of
              Finite drawHeight \<Rightarrow>
                DrawImage 0 (machine_minus A (real canvas_height) drawHeight / 2) (real canvas_width) drawHeight
            | Infinity \<Rightarrow> DrawImageNonFinite
            | NaN \<Rightarrow> DrawImageNonFinite))"

text \<open>
  The watermark is an image, drawn at the top right of the canvas after the
  picture. It was made by \<^verbatim>\<open>new window.Image()\<close>, so its width and height
  are its natural ones.
\<close>

record watermark_image =
  complete_attr :: bool
  naturalWidth :: nat
  naturalHeight :: nat

definition draw_watermark_image :: "arithmetic \<Rightarrow> nat \<Rightarrow> watermark_image option \<Rightarrow> draw_op list" where
  "draw_watermark_image A canvas_width watermarkRef =
     (case watermarkRef of
        None \<Rightarrow> []
      | Some watermark \<Rightarrow>
          if complete_attr watermark \<and> naturalWidth watermark > 0 then
            (let watermarkScale = rounded A 0.15;
                 watermarkWidth = machine_times A (real canvas_width) watermarkScale;
                 watermarkHeight =
                   machine_times_number A watermarkWidth
                     (machine_divide A (real (naturalHeight watermark)) (real (naturalWidth watermark)));
                 padding = 10;
                 watermarkX = machine_minus A (machine_minus A (real canvas_width) watermarkWidth) padding;
                 watermarkY = padding
             in [GlobalAlpha (rounded A 0.8),
                 (case watermarkHeight of
                    Finite height \<Rightarrow> DrawWatermarkImage watermarkX watermarkY watermarkWidth height
                  | Infinity \<Rightarrow> DrawImageNonFinite
                  | NaN \<Rightarrow> DrawImageNonFinite),
                 GlobalAlpha 1])
          else [])"

text \<open>\<^verbatim>\<open>drawImageToCanvas\<close> of components/MediaDisplay.tsx. It has no loop and always returns.\<close>

definition drawImageToCanvas_image_watermark ::
  "arithmetic \<Rightarrow> bool \<Rightarrow> element_box option \<Rightarrow> image option \<Rightarrow> watermark_image option \<Rightarrow> bool \<Rightarrow>
   canvas_state option \<times> draw_op list" where
  "drawImageToCanvas_image_watermark A canvas_mounted container imageRef watermarkRef has_context =
     (case imageRef of
        None \<Rightarrow> (None, [])
      | Some img \<Rightarrow>
          if \<not> canvas_mounted then (None, [])
          else
            (let w = set_dimension 300 (fst (displaySize_container_aspect A container img));
                 h = set_dimension 150 (snd (displaySize_container_aspect A container img));
                 canvas = \<lparr>pixel_width = w, pixel_height = h,
                   css = (case container of
                            None \<Rightarrow> []
                          | Some c \<Rightarrow> [(''width'', Keyword ''100%''), (''height'', Keyword ''100%'')])\<rparr>
             in if \<not> has_context then (Some canvas, [])
                else (Some canvas,
                      [ImageSmoothing True ''low'', ClearRect 0 0 (real w) (real h), cover A img w h] @
                      draw_watermark_image A w watermarkRef)))"

subsection \<open>What the component renders\<close>

text \<open>
  The elements the component returns: a message while loading or after an
  error, the canvas for an image, and for a video the container with the
  video element and, after it and positioned over it, the watermark.
\<close>

datatype FileType = Images | Videos

datatype element = VideoElement | WatermarkCanvas | WatermarkPicture

datatype view = LoadingView | ErrorView string | CanvasView | VideoView "element list"

definition media_view :: "FileType \<Rightarrow> element list \<Rightarrow> view" where
  "media_view type overlay = (case type of Images \<Rightarrow> CanvasView | Videos \<Rightarrow> VideoView (VideoElement # overlay))"

text \<open>
  The error state is a message or \<^verbatim>\<open>null\<close>, and \<^verbatim>\<open>if (error)\<close> holds for a
  message that is not empty.
\<close>

definition MediaDisplay :: "FileType \<Rightarrow> string \<Rightarrow> bool \<Rightarrow> string option \<Rightarrow> view" where
  "MediaDisplay type watermarkText loading error =
     (if loading then LoadingView
      else case error of
        None \<Rightarrow> media_view type (if watermarkText \<noteq> [] then [WatermarkCanvas] else [])
      | Some message \<Rightarrow>
          if message \<noteq> [] then ErrorView message
          else media_view type (if watermarkText \<noteq> [] then [WatermarkCanvas] else []))"

definition MediaDisplay_image_watermark ::
  "FileType \<Rightarrow> bool \<Rightarrow> bool \<Rightarrow> bool \<Rightarrow> string option \<Rightarrow> view" where
  "MediaDisplay_image_watermark type watermarkLoaded watermarkRef_set loading error =
     (if loading then LoadingView
      else case error of
        None \<Rightarrow>
          media_view type (if watermarkLoaded \<and> watermarkRef_set then [WatermarkPicture] else [])
      | Some message \<Rightarrow>
          if message \<noteq> [] then ErrorView message
          else media_view type
            (if watermarkLoaded \<and> watermarkRef_set then [WatermarkPicture] else []))"

section \<open>Notions of the specification\<close>

text \<open>The number a string of decimal digits denotes.\<close>

definition digit_value :: "char \<Rightarrow> nat" where
  "digit_value c =
     (case map_of (zip ''0123456789'' [0, 1, 2, 3, 4, 5, 6, 7, 8, 9]) c of None \<Rightarrow> 0 | Some d \<Rightarrow> d)"

definition decimal_value :: "string \<Rightarrow> nat" where
  "decimal_value s = foldl (\<lambda>a c. 10 * a + digit_value c) 0 s"

text \<open>
  A name ends in a dot followed by one of the extensions, letters compared
  without case.
\<close>

definition dotted_extension :: "string list \<Rightarrow> string \<Rightarrow> bool" where
  "dotted_extension extensions name \<longleftrightarrow>
     (\<exists>e \<in> set extensions. \<exists>stem. toLowerCase name = stem @ ''.'' @ e)"

text \<open>
  A server whose working directory is \<^verbatim>\<open>/app\<close>: two images, two other
  files and a video in the public folders, and a folder \<^verbatim>\<open>images2\<close> next to
  \<^verbatim>\<open>images\<close>.
\<close>

definition example_fs :: node where
  "example_fs =
     Dir [(''app'', Dir [(''public'', Dir
       [(''images'', Dir [(''a.png'', File [1, 2]), (''notajpg'', File []), (''B.JPEG'', File [7]),
                          (''notes.txt'', File [])]),
        (''images2'', Dir [(''x.png'', File [1, 2, 3])]),
        (''videos'', Dir [(''a.png'', File [4]), (''clip.MP4'', File [5, 6])])])])]"



text \<open>
  A stand-in for \<^verbatim>\<open>measureText\<close>: every character is 12 wide at every font
  size.
\<close>

definition example_measureText :: "real \<Rightarrow> string \<Rightarrow> real" where
  "example_measureText fontSize t = 12 * real (length t)"

text \<open>
  The arithmetic of IEEE 754 doubles (binary64), rounded to the nearest with
  ties to even. A real number is rounded at its magnitude: to the nearest
  multiple of the unit in the last place, which is \<open>2\<^sup>e\<^sup>-\<^sup>5\<^sup>2\<close> for a magnitude
  from \<open>2\<^sup>e\<close> up to \<open>2\<^sup>e\<^sup>+\<^sup>1\<close> and \<open>2\<^sup>-\<^sup>1\<^sup>0\<^sup>7\<^sup>4\<close> below \<open>2\<^sup>-\<^sup>1\<^sup>0\<^sup>2\<^sup>2\<close>; of two
  nearest multiples, the even one is taken. A magnitude of
  \<open>2\<^sup>1\<^sup>0\<^sup>2\<^sup>4 - 2\<^sup>9\<^sup>7\<^sup>0\<close> or more overflows. The library functions of
  \<open>double_arithmetic\<close> are the correctly rounded ones.
\<close>

definition round_to_even :: "real \<Rightarrow> int" where
  "round_to_even q =
     (let f = \<lfloor>q\<rfloor>
      in if q - real_of_int f < 1 / 2 then f
         else if 1 / 2 < q - real_of_int f then f + 1
         else if even f then f else f + 1)"

definition exponent :: "real \<Rightarrow> int" where
  "exponent x = max \<lfloor>log 2 x\<rfloor> (- 1022)"

definition binary64_magnitude :: "real \<Rightarrow> real" where
  "binary64_magnitude x =
     (if x = 0 then 0
      else real_of_int (round_to_even (x / 2 powr (real_of_int (exponent x) - 52))) *
           2 powr (real_of_int (exponent x) - 52))"

definition binary64 :: "real \<Rightarrow> real" where
  "binary64 x = (if x < 0 then - binary64_magnitude (- x) else binary64_magnitude x)"

definition double_arithmetic :: arithmetic where
  "double_arithmetic =
     \<lparr>rounded = binary64, overflows = (\<lambda>x. 2 ^ 1024 - 2 ^ 970 \<le> \<bar>x\<bar>),
      Math_sqrt = (\<lambda>x. binary64 (sqrt x)), Math_cos = (\<lambda>x. binary64 (cos x)),
      Math_sin = (\<lambda>x. binary64 (sin x)), Math_PI = binary64 pi\<rparr>"

text \<open>
  The tiling as the specification gives it, for a canvas of width \<open>w\<close> and
  height \<open>h\<close>, a text of width \<open>tw\<close> and a font size \<open>fs\<close>, each formula
  computed by the machine: the spacings \<open>sx = 1.5 tw\<close> and \<open>sy = 2 fs\<close>, the
  diagonal \<open>sqrt (w\<^sup>2 + h\<^sup>2)\<close>, the number of steps
  \<open>\<lceil>diagonal / spacing\<rceil> + 2\<close>, the position of the pair \<open>(i, j)\<close> and the
  bounds a position must lie in. The font size is the one the routine takes
  for a canvas.
\<close>

definition font_size :: "arithmetic \<Rightarrow> nat \<Rightarrow> nat \<Rightarrow> real" where
  "font_size A w h = max 20 (machine_times A (real (min w h)) (rounded A 0.06))"

definition spacing_x :: "arithmetic \<Rightarrow> real \<Rightarrow> real" where
  "spacing_x A tw = machine_times A 1.5 tw"

definition spacing_y :: "arithmetic \<Rightarrow> real \<Rightarrow> real" where
  "spacing_y A fs = machine_times A 2 fs"

definition diagonal :: "arithmetic \<Rightarrow> real \<Rightarrow> real \<Rightarrow> real" where
  "diagonal A w h = Math_sqrt A (machine_plus A (machine_times A w w) (machine_times A h h))"

definition steps :: "arithmetic \<Rightarrow> real \<Rightarrow> real \<Rightarrow> int" where
  "steps A d spacing = \<lceil>rounded A (d / spacing)\<rceil> + 2"

definition position :: "arithmetic \<Rightarrow> real \<Rightarrow> real \<Rightarrow> real \<Rightarrow> real \<Rightarrow> int \<times> int \<Rightarrow> real \<times> real" where
  "position A w h sx sy ij =
     (machine_minus A
        (machine_plus A (w / 2)
           (machine_times A (machine_times A (real_of_int (fst ij)) sx) (Math_cos A (- Math_PI A / 4))))
        (machine_times A (machine_times A (real_of_int (snd ij)) sy) (Math_sin A (- Math_PI A / 4))),
      machine_plus A
        (machine_plus A (h / 2)
           (machine_times A (machine_times A (real_of_int (fst ij)) sx) (Math_sin A (- Math_PI A / 4))))
        (machine_times A (machine_times A (real_of_int (snd ij)) sy) (Math_cos A (- Math_PI A / 4))))"

definition in_bounds :: "arithmetic \<Rightarrow> real \<Rightarrow> real \<Rightarrow> real \<Rightarrow> real \<Rightarrow> real \<times> real \<Rightarrow> bool" where
  "in_bounds A w h tw fs p \<longleftrightarrow>
     - tw < fst p \<and> fst p < machine_plus A w tw \<and> - fs < snd p \<and> snd p < machine_plus A h fs"

definition tiling_positions :: "arithmetic \<Rightarrow> real \<Rightarrow> real \<Rightarrow> real \<Rightarrow> real \<Rightarrow> (real \<times> real) set" where
  "tiling_positions A w h tw fs =
     {p. \<exists>i j. - steps A (diagonal A w h) (spacing_x A tw) \<le> i \<and> i < steps A (diagonal A w h) (spacing_x A tw) \<and>
               - steps A (diagonal A w h) (spacing_y A fs) \<le> j \<and> j < steps A (diagonal A w h) (spacing_y A fs) \<and>
               p = position A w h (spacing_x A tw) (spacing_y A fs) (i, j) \<and> in_bounds A w h tw fs p}"

text \<open>The same positions in the order of the two loops.\<close>

definition tiling_list :: "arithmetic \<Rightarrow> real \<Rightarrow> real \<Rightarrow> real \<Rightarrow> real \<Rightarrow> (real \<times> real) list" where
  "tiling_list A w h tw fs =
     filter (in_bounds A w h tw fs)
       (map (position A w h (spacing_x A tw) (spacing_y A fs))
          (List.product
             [- steps A (diagonal A w h) (spacing_x A tw) .. steps A (diagonal A w h) (spacing_x A tw) - 1]
             [- steps A (diagonal A w h) (spacing_y A fs) .. steps A (diagonal A w h) (spacing_y A fs) - 1]))"

text \<open>
  The machine counts to \<open>n\<close> when every integer from \<open>-n\<close> to \<open>n\<close> is a
  number, as it is for doubles below \<open>2\<^sup>5\<^sup>3\<close> (lemma \<open>double_counts_to\<close>).
  The loops of the tiling are counted when neither quotient overflows and
  the machine counts to both numbers of steps; the formulas of the tiling
  are defined when, moreover, neither spacing is zero.
\<close>

definition counts_to :: "arithmetic \<Rightarrow> int \<Rightarrow> bool" where
  "counts_to A n \<longleftrightarrow> (\<forall>m. \<bar>m\<bar> \<le> \<bar>n\<bar> \<longrightarrow> rounded A (real_of_int m) = real_of_int m)"

definition loops_counted :: "arithmetic \<Rightarrow> real \<Rightarrow> real \<Rightarrow> real \<Rightarrow> real \<Rightarrow> bool" where
  "loops_counted A w h tw fs \<longleftrightarrow>
     \<not> overflows A (diagonal A w h / spacing_x A tw) \<and>
     \<not> overflows A (diagonal A w h / spacing_y A fs) \<and>
     counts_to A (steps A (diagonal A w h) (spacing_x A tw)) \<and>
     counts_to A (steps A (diagonal A w h) (spacing_y A fs))"

definition tiling_defined :: "arithmetic \<Rightarrow> real \<Rightarrow> real \<Rightarrow> real \<Rightarrow> real \<Rightarrow> bool" where
  "tiling_defined A w h tw fs \<longleftrightarrow>
     spacing_x A tw \<noteq> 0 \<and> spacing_y A fs \<noteq> 0 \<and> loops_counted A w h tw fs"

text \<open>
  What the proofs about the centre of the canvas need of the rounding: it is
  monotone, it leaves the sizes a canvas can have (the integers below
  \<open>2\<^sup>3\<^sup>1\<close>) and their halves as they are, and the square root of a number
  that is not negative is not negative. Doubles have these properties (lemma
  \<open>double_keeps_sizes\<close>).
\<close>

definition keeps_sizes :: "arithmetic \<Rightarrow> bool" where
  "keeps_sizes A \<longleftrightarrow>
     (\<forall>x y. x \<le> y \<longrightarrow> rounded A x \<le> rounded A y) \<and>
     (\<forall>n :: nat. n \<le> 2147483647 \<longrightarrow> rounded A (real n) = real n \<and> rounded A (real n / 2) = real n / 2) \<and>
     (\<forall>x. 0 \<le> x \<longrightarrow> 0 \<le> Math_sqrt A x)"

text \<open>
  A text can be drawn on a canvas of width \<open>w\<close> and height \<open>h\<close> when its
  measured width is a positive number and the loops of the tiling are
  counted.
\<close>

definition watermark_drawable ::
  "arithmetic \<Rightarrow> (real \<Rightarrow> string \<Rightarrow> real) \<Rightarrow> string \<Rightarrow> nat \<Rightarrow> nat \<Rightarrow> bool" where
  "watermark_drawable A measureText watermarkText w h \<longleftrightarrow>
     0 < measureText (font_size A w h) watermarkText \<and>
     rounded A (measureText (font_size A w h) watermarkText) = measureText (font_size A w h) watermarkText \<and>
     loops_counted A (real w) (real h) (measureText (font_size A w h) watermarkText) (font_size A w h)"

text \<open>A text can always be drawn when it can be drawn on every canvas.\<close>

definition always_drawable :: "arithmetic \<Rightarrow> (real \<Rightarrow> string \<Rightarrow> real) \<Rightarrow> string \<Rightarrow> bool" where
  "always_drawable A measureText watermarkText \<longleftrightarrow>
     (\<forall>w h. w \<le> 2147483647 \<and> h \<le> 2147483647 \<longrightarrow> watermark_drawable A measureText watermarkText w h)"

section \<open>Properties\<close>

subsection \<open>Keyboard suppression\<close>

text \<open>
  C9. The keydown handler calls \<^verbatim>\<open>preventDefault\<close> exactly on the five
  listed combinations (Ctrl+s, Ctrl+Shift+I, F12, Ctrl+Shift+C, Ctrl+u): on
  these it returns the event with the flag set and the value false; every
  other event leaves the handler as it came, and the flag is set afterwards
  if and only if it was set before or the event is one of the five.
\<close>

theorem handleKeyDown_suppresses_exactly:
  "handleKeyDown e =
     (if suppressed_combination e then (preventDefault e, Some False) else (e, None)) \<and>
   (defaultPrevented (fst (handleKeyDown e)) \<longleftrightarrow>
      defaultPrevented e \<or> suppressed_combination e)"
  by (auto simp: handleKeyDown_def suppressed_combination_def preventDefault_def)

subsection \<open>At most one playing video\<close>

lemma tracked_initial: "tracked initial_page"
  by (simp add: tracked_def playing_def initial_page_def)

lemma tracked_step: "tracked s \<Longrightarrow> tracked (step s ev)"
proof (cases ev)
  case (Play v)
  assume t: "tracked s"
  show ?thesis
  proof (cases "currentlyPlayingVideoRef s")
    case None
    with t Play show ?thesis
      by (auto simp: tracked_def playing_def handleVideoPlay_def)
  next
    case (Some cur)
    with t Play show ?thesis
      by (auto simp: tracked_def playing_def handleVideoPlay_def pause_def)
  qed
next
  case (Pause v)
  assume "tracked s"
  with Pause show ?thesis
    by (auto simp: tracked_def playing_def pause_def)
qed

lemma tracked_run: "tracked s \<Longrightarrow> tracked (run evs s)"
  unfolding run_def
  by (induction evs arbitrary: s) (simp_all add: tracked_step)

lemma tracked_card: "tracked s \<Longrightarrow> card (playing s) \<le> 1"
proof -
  assume "tracked s"
  then have sub: "playing s \<subseteq> set_option (currentlyPlayingVideoRef s)"
    by (simp add: tracked_def)
  have "card (set_option (currentlyPlayingVideoRef s)) \<le> 1"
    by (cases "currentlyPlayingVideoRef s") simp_all
  moreover have "finite (set_option (currentlyPlayingVideoRef s))"
    by (cases "currentlyPlayingVideoRef s") simp_all
  ultimately show ?thesis
    using sub card_mono order_trans by blast
qed

text \<open>
  C10. When \<^verbatim>\<open>handleVideoPlay\<close> is called with an element other than the
  tracked one, the tracked element is paused and then the new element is
  recorded; and after every sequence of play and pause events, starting from a
  page where nothing plays, every playing element is the tracked one, so at
  most one element plays.
\<close>

theorem handleVideoPlay_one_playing:
  "(currentlyPlayingVideoRef s = Some cur \<and> cur \<noteq> v \<longrightarrow>
      handleVideoPlay v s = (pause cur s)\<lparr>currentlyPlayingVideoRef := Some v\<rparr>) \<and>
   playing (run evs initial_page) \<subseteq> set_option (currentlyPlayingVideoRef (run evs initial_page)) \<and>
   card (playing (run evs initial_page)) \<le> 1"
proof -
  have "tracked (run evs initial_page)"
    by (rule tracked_run [OF tracked_initial])
  then show ?thesis
    using tracked_card [of "run evs initial_page"]
    by (simp add: tracked_def handleVideoPlay_def)
qed

theorem handleVideoPlay_one_playing_witness:
  "currentlyPlayingVideoRef (run [Play 1] initial_page) = Some 1 \<and> (1::nat) \<noteq> 2 \<and>
   handleVideoPlay 2 (run [Play 1] initial_page) =
     (pause 1 (run [Play 1] initial_page))\<lparr>currentlyPlayingVideoRef := Some 2\<rparr> \<and>
   playing (run [Play 1, Play 2, Pause 2, Play 3] initial_page) = {3} \<and>
   card (playing (run [Play 1, Play 2, Pause 2, Play 3] initial_page)) \<le> 1"
proof -
  have ref: "currentlyPlayingVideoRef (run [Play 1] initial_page) = Some 1"
    by (simp add: run_def handleVideoPlay_def initial_page_def)
  have pl: "playing (run [Play 1, Play 2, Pause 2, Play 3] initial_page) = {3}"
    by (auto simp: playing_def run_def handleVideoPlay_def initial_page_def pause_def)
  show ?thesis
    using handleVideoPlay_one_playing
      [of "run [Play 1] initial_page" 1 2 "[Play 1, Play 2, Pause 2, Play 3]"] ref pl
    by simp
qed

subsection \<open>Strings\<close>

declare number_toString.simps [simp del]

lemma digit_value_nth: "k < 10 \<Longrightarrow> digit_value (''0123456789'' ! k) = k"
proof -
  assume "k < 10"
  then have "k = 0 \<or> k = 1 \<or> k = 2 \<or> k = 3 \<or> k = 4 \<or> k = 5 \<or> k = 6 \<or> k = 7 \<or> k = 8 \<or> k = 9"
    by arith
  then show ?thesis
    by (elim disjE) (simp_all add: digit_value_def)
qed

lemma digit_value_digit: "digit_value (digit d) = d mod 10"
  by (simp add: digit_def digit_value_nth)

lemma decimal_value_snoc: "decimal_value (s @ [c]) = 10 * decimal_value s + digit_value c"
  by (simp add: decimal_value_def)

lemma decimal_value_number_toString: "decimal_value (number_toString n) = n"
proof (induction n rule: number_toString.induct)
  case (1 n)
  show ?case
  proof (cases "n < 10")
    case True
    then show ?thesis
      by (subst number_toString.simps) (simp add: decimal_value_def digit_value_digit)
  next
    case False
    with "1" show ?thesis
      by (subst number_toString.simps) (simp add: decimal_value_snoc digit_value_digit)
  qed
qed

lemma split_on_not_Nil: "split_on c s \<noteq> []"
  by (induction s) (auto split: list.splits)

lemma split_on_no_separator: "c \<notin> set s \<Longrightarrow> split_on c s = [s]"
  by (induction s) auto

lemma split_on_append: "split_on c (xs @ c # ys) = split_on c xs @ split_on c ys"
proof (induction xs)
  case Nil
  show ?case by simp
next
  case (Cons x xs)
  obtain p ps where "split_on c xs = p # ps"
    using split_on_not_Nil [of c xs] by (cases "split_on c xs") auto
  with Cons show ?case by simp
qed

lemma last_split_on: "c \<notin> set e \<Longrightarrow> last (split_on c (stem @ c # e)) = e"
  by (simp add: split_on_append split_on_no_separator)

lemma extension_after_last_dot:
  "CHR ''.'' \<notin> set e \<Longrightarrow> extension (stem @ ''.'' @ e) = toLowerCase e"
  by (simp add: extension_def last_split_on)

lemma extension_without_dot: "CHR ''.'' \<notin> set name \<Longrightarrow> extension name = toLowerCase name"
  by (simp add: extension_def split_on_no_separator)

lemma lower_not_upper:
  "l \<in> set ''abcdefghijklmnopqrstuvwxyz'' \<Longrightarrow> l \<notin> set ''ABCDEFGHIJKLMNOPQRSTUVWXYZ''"
  by auto

lemma toLowerCase_char_not_upper:
  "toLowerCase_char c \<notin> set ''ABCDEFGHIJKLMNOPQRSTUVWXYZ''"
proof (cases "map_of (zip ''ABCDEFGHIJKLMNOPQRSTUVWXYZ'' ''abcdefghijklmnopqrstuvwxyz'') c")
  case None
  then have "c \<notin> fst ` set (zip ''ABCDEFGHIJKLMNOPQRSTUVWXYZ'' ''abcdefghijklmnopqrstuvwxyz'')"
    by (meson map_of_eq_None_iff)
  moreover have "fst ` set (zip ''ABCDEFGHIJKLMNOPQRSTUVWXYZ'' ''abcdefghijklmnopqrstuvwxyz'') =
      set ''ABCDEFGHIJKLMNOPQRSTUVWXYZ''"
    by simp
  ultimately have "c \<notin> set ''ABCDEFGHIJKLMNOPQRSTUVWXYZ''"
    by metis
  moreover have "toLowerCase_char c = c"
    unfolding toLowerCase_char_def None by simp
  ultimately show ?thesis
    by metis
next
  case (Some l)
  then have "(c, l) \<in> set (zip ''ABCDEFGHIJKLMNOPQRSTUVWXYZ'' ''abcdefghijklmnopqrstuvwxyz'')"
    by (rule map_of_SomeD)
  then have "l \<in> set ''abcdefghijklmnopqrstuvwxyz''"
    by (rule set_zip_rightD)
  then have "l \<notin> set ''ABCDEFGHIJKLMNOPQRSTUVWXYZ''"
    by (rule lower_not_upper)
  moreover have "toLowerCase_char c = l"
    unfolding toLowerCase_char_def Some by simp
  ultimately show ?thesis
    by metis
qed

lemma toLowerCase_no_upper:
  assumes "c \<in> set ''ABCDEFGHIJKLMNOPQRSTUVWXYZ''"
  shows "c \<notin> set (toLowerCase s)"
proof
  assume "c \<in> set (toLowerCase s)"
  then obtain x where "c = toLowerCase_char x"
    by (auto simp only: toLowerCase_def set_map)
  with assms toLowerCase_char_not_upper [of x] show False by simp
qed

lemma toLowerCase_neq:
  assumes "c \<in> set ''ABCDEFGHIJKLMNOPQRSTUVWXYZ''" and "c \<in> set n"
  shows "toLowerCase s \<noteq> n"
  using assms toLowerCase_no_upper by blast

text \<open>
  Every function that \<^verbatim>\<open>Object.prototype\<close> carries has a capital letter in its
  name, so a lowercased key can only meet \<^verbatim>\<open>constructor\<close> and \<^verbatim>\<open>__proto__\<close>.
\<close>

lemma inherited_toLowerCase:
  assumes "toLowerCase s \<noteq> ''constructor''" and "toLowerCase s \<noteq> ''__proto__''"
  shows "inherited (toLowerCase s) = None"
proof -
  have "toLowerCase s \<noteq> ''__defineGetter__''" by (rule toLowerCase_neq [of "CHR ''G''"]) simp_all
  moreover have "toLowerCase s \<noteq> ''__defineSetter__''" by (rule toLowerCase_neq [of "CHR ''S''"]) simp_all
  moreover have "toLowerCase s \<noteq> ''hasOwnProperty''" by (rule toLowerCase_neq [of "CHR ''O''"]) simp_all
  moreover have "toLowerCase s \<noteq> ''__lookupGetter__''" by (rule toLowerCase_neq [of "CHR ''G''"]) simp_all
  moreover have "toLowerCase s \<noteq> ''__lookupSetter__''" by (rule toLowerCase_neq [of "CHR ''S''"]) simp_all
  moreover have "toLowerCase s \<noteq> ''isPrototypeOf''" by (rule toLowerCase_neq [of "CHR ''P''"]) simp_all
  moreover have "toLowerCase s \<noteq> ''propertyIsEnumerable''" by (rule toLowerCase_neq [of "CHR ''I''"]) simp_all
  moreover have "toLowerCase s \<noteq> ''toString''" by (rule toLowerCase_neq [of "CHR ''S''"]) simp_all
  moreover have "toLowerCase s \<noteq> ''valueOf''" by (rule toLowerCase_neq [of "CHR ''O''"]) simp_all
  moreover have "toLowerCase s \<noteq> ''toLocaleString''" by (rule toLowerCase_neq [of "CHR ''L''"]) simp_all
  ultimately show ?thesis
    using assms by (simp add: inherited_def prototype_functions_def)
qed

subsection \<open>The file system\<close>









subsection \<open>GET /api/media\<close>

lemma media_GET_missing_iff:
  "media_GET cwd fs file type = missing_parameter \<longleftrightarrow>
     file = None \<or> file = Some [] \<or> type = None \<or> type = Some []"
  by (auto simp: media_GET_def missing_parameter_def file_not_found_def failed_to_serve_def Let_def
      split: option.splits sum.splits)

lemma media_GET_present:
  assumes "f \<noteq> []" and "t \<noteq> []"
  shows "media_GET cwd fs (Some f) (Some t) =
     (if \<not> existsSync fs (join [folderPath cwd (Some t), f]) \<or>
         \<not> prefix (folderPath cwd (Some t)) (join [folderPath cwd (Some t), f])
      then file_not_found
      else (case readFile fs (join [folderPath cwd (Some t), f]) of
              Inl e \<Rightarrow> failed_to_serve
            | Inr fileBuffer \<Rightarrow> BufferResponse (media_headers t f fileBuffer) fileBuffer))"
  using assms by (simp add: media_GET_def Let_def)

text \<open>
  C3 (the code at a request that leaves the folder). With a folder
  \<^verbatim>\<open>public/images2\<close> beside \<^verbatim>\<open>public/images\<close>, the request
  \<^verbatim>\<open>file=../images2/x.png&type=images\<close> is answered with the bytes of
  \<^verbatim>\<open>/app/public/images2/x.png\<close>: the joined path starts with the characters
  of \<^verbatim>\<open>/app/public/images\<close> and so passes the check, but it is not inside
  that folder.
\<close>

theorem media_GET_serves_beside_folder:
  "media_GET ''/app'' example_fs (Some ''../images2/x.png'') (Some ''images'') =
     BufferResponse (media_headers ''images'' ''../images2/x.png'' [1, 2, 3]) [1, 2, 3] \<and>
   folderPath ''/app'' (Some ''images'') = ''/app/public/images'' \<and>
   join [''/app/public/images'', ''../images2/x.png''] = ''/app/public/images2/x.png'' \<and>
   readFile example_fs ''/app/public/images2/x.png'' = Inr [1, 2, 3] \<and>
   prefix ''/app/public/images'' ''/app/public/images2/x.png'' \<and>
   \<not> inside ''/app/public/images'' ''/app/public/images2/x.png''"
  by code_simp

theorem media_GET_serves_beside_folder_witness:
  "\<exists>headers. media_GET ''/app'' example_fs (Some ''../images2/x.png'') (Some ''images'') =
       BufferResponse headers [1, 2, 3] \<and>
     \<not> inside (folderPath ''/app'' (Some ''images'')) ''/app/public/images2/x.png''"
  using media_GET_serves_beside_folder by metis

text \<open>
  C4 as stated fails: a request whose parameters are both present and whose
  joined path exists (\<^verbatim>\<open>file=.\<close> names the folder itself) is answered with
  status 500, not with bytes; a request for a file that exists outside the
  folder is answered with status 404; and a parameter that is present but
  empty is answered with status 400.
\<close>

theorem media_GET_not_three_way:
  "media_GET ''/app'' example_fs (Some ''.'') (Some ''images'') = failed_to_serve \<and>
   existsSync example_fs (join [folderPath ''/app'' (Some ''images''), ''.'']) \<and>
   media_GET ''/app'' example_fs (Some ''../videos/a.png'') (Some ''images'') = file_not_found \<and>
   existsSync example_fs (join [folderPath ''/app'' (Some ''images''), ''../videos/a.png'']) \<and>
   media_GET ''/app'' example_fs (Some []) (Some ''images'') = missing_parameter"
  by code_simp

text \<open>
  C4, amended. The handler answers 400 \<^verbatim>\<open>Missing file or type parameter\<close>
  exactly when the file or the type parameter is absent or empty. Otherwise it
  answers 404 \<^verbatim>\<open>File not found\<close> when the joined path does not exist, and
  also when the joined path does not start with the folder path; otherwise 500
  \<^verbatim>\<open>Failed to serve file\<close> when reading the path fails; otherwise the bytes
  read, with a Content-Length header that is the decimal form of their number.
\<close>

theorem media_GET_answers:
  "(media_GET cwd fs file type = missing_parameter \<longleftrightarrow>
      file = None \<or> file = Some [] \<or> type = None \<or> type = Some []) \<and>
   (f \<noteq> [] \<and> t \<noteq> [] \<and> \<not> existsSync fs (join [folderPath cwd (Some t), f]) \<longrightarrow>
      media_GET cwd fs (Some f) (Some t) = file_not_found) \<and>
   (f \<noteq> [] \<and> t \<noteq> [] \<and>
    \<not> prefix (folderPath cwd (Some t)) (join [folderPath cwd (Some t), f]) \<longrightarrow>
      media_GET cwd fs (Some f) (Some t) = file_not_found) \<and>
   (f \<noteq> [] \<and> t \<noteq> [] \<and> existsSync fs (join [folderPath cwd (Some t), f]) \<and>
    prefix (folderPath cwd (Some t)) (join [folderPath cwd (Some t), f]) \<longrightarrow>
      (case readFile fs (join [folderPath cwd (Some t), f]) of
         Inl e \<Rightarrow> media_GET cwd fs (Some f) (Some t) = failed_to_serve
       | Inr bytes \<Rightarrow>
           (\<exists>headers. media_GET cwd fs (Some f) (Some t) = BufferResponse headers bytes \<and>
              map_of headers ''Content-Length'' = Some (number_toString (length bytes)) \<and>
              decimal_value (number_toString (length bytes)) = length bytes)))"
  by (auto simp: media_GET_missing_iff media_GET_present media_headers_def
        decimal_value_number_toString split: sum.splits)

theorem media_GET_answers_witness:
  "media_GET ''/app'' example_fs None (Some ''images'') = missing_parameter \<and>
   (''gone.png'' \<noteq> [] \<and> ''images'' \<noteq> [] \<and>
      \<not> existsSync example_fs (join [folderPath ''/app'' (Some ''images''), ''gone.png''])) \<and>
   media_GET ''/app'' example_fs (Some ''gone.png'') (Some ''images'') = file_not_found \<and>
   (''../videos/a.png'' \<noteq> [] \<and> ''images'' \<noteq> [] \<and>
      \<not> prefix (folderPath ''/app'' (Some ''images''))
          (join [folderPath ''/app'' (Some ''images''), ''../videos/a.png''])) \<and>
   media_GET ''/app'' example_fs (Some ''../videos/a.png'') (Some ''images'') = file_not_found \<and>
   (''a.png'' \<noteq> [] \<and> ''images'' \<noteq> [] \<and>
      existsSync example_fs (join [folderPath ''/app'' (Some ''images''), ''a.png'']) \<and>
      prefix (folderPath ''/app'' (Some ''images'')) (join [folderPath ''/app'' (Some ''images''), ''a.png''])) \<and>
   (\<exists>headers. media_GET ''/app'' example_fs (Some ''a.png'') (Some ''images'') =
        BufferResponse headers [1, 2] \<and>
      map_of headers ''Content-Length'' = Some ''2'')"
proof -
  have h1: "''gone.png'' \<noteq> [] \<and> ''images'' \<noteq> [] \<and>
      \<not> existsSync example_fs (join [folderPath ''/app'' (Some ''images''), ''gone.png''])"
    by code_simp
  have h2: "''../videos/a.png'' \<noteq> [] \<and> ''images'' \<noteq> [] \<and>
      \<not> prefix (folderPath ''/app'' (Some ''images''))
          (join [folderPath ''/app'' (Some ''images''), ''../videos/a.png''])"
    by code_simp
  have h3: "''a.png'' \<noteq> [] \<and> ''images'' \<noteq> [] \<and>
      existsSync example_fs (join [folderPath ''/app'' (Some ''images''), ''a.png'']) \<and>
      prefix (folderPath ''/app'' (Some ''images'')) (join [folderPath ''/app'' (Some ''images''), ''a.png''])"
    by code_simp
  have r: "readFile example_fs (join [folderPath ''/app'' (Some ''images''), ''a.png'']) = Inr [1, 2]"
    by code_simp
  have n: "number_toString (length [1 :: byte, 2]) = ''2''"
    by code_simp
  note t = media_GET_answers [of "''/app''" example_fs]
  from t [of None "Some ''images''"] have c0:
    "media_GET ''/app'' example_fs None (Some ''images'') = missing_parameter"
    by blast
  from t [of None None "''gone.png''" "''images''"] h1 have c1:
    "media_GET ''/app'' example_fs (Some ''gone.png'') (Some ''images'') = file_not_found"
    by blast
  from t [of None None "''../videos/a.png''" "''images''"] h2 have c2:
    "media_GET ''/app'' example_fs (Some ''../videos/a.png'') (Some ''images'') = file_not_found"
    by blast
  from t [of None None "''a.png''" "''images''"] h3 have
    "case readFile example_fs (join [folderPath ''/app'' (Some ''images''), ''a.png'']) of
         Inl e \<Rightarrow> media_GET ''/app'' example_fs (Some ''a.png'') (Some ''images'') = failed_to_serve
       | Inr bytes \<Rightarrow>
           (\<exists>headers. media_GET ''/app'' example_fs (Some ''a.png'') (Some ''images'') = BufferResponse headers bytes \<and>
              map_of headers ''Content-Length'' = Some (number_toString (length bytes)) \<and>
              decimal_value (number_toString (length bytes)) = length bytes)"
    by blast
  then have c3: "\<exists>headers. media_GET ''/app'' example_fs (Some ''a.png'') (Some ''images'') =
        BufferResponse headers [1, 2] \<and> map_of headers ''Content-Length'' = Some ''2''"
    unfolding r sum.case n by blast
  from c0 h1 c1 h2 c2 h3 c3 show ?thesis by blast
qed

text \<open>
  C7 as stated fails: the same file name, hence the same extension, is served
  as \<^verbatim>\<open>image/png\<close> with type \<^verbatim>\<open>images\<close> and as \<^verbatim>\<open>video/mp4\<close> with type
  \<^verbatim>\<open>videos\<close>. The type chooses the table, not only the fallback.
\<close>

theorem contentType_depends_on_type:
  "media_GET ''/app'' example_fs (Some ''a.png'') (Some ''images'') =
     BufferResponse [(''Content-Type'', ''image/png''), (''Content-Length'', ''2''),
      (''Cache-Control'', ''private, no-cache, no-store, must-revalidate''),
      (''Pragma'', ''no-cache''), (''Expires'', ''0'')] [1, 2] \<and>
   media_GET ''/app'' example_fs (Some ''a.png'') (Some ''videos'') =
     BufferResponse [(''Content-Type'', ''video/mp4''), (''Content-Length'', ''1''),
      (''Cache-Control'', ''private, no-cache, no-store, must-revalidate''),
      (''Pragma'', ''no-cache''), (''Expires'', ''0'')] [4]"
  by code_simp

text \<open>
  The table lookup also answers for a key that only the prototype has: a file
  named \<^verbatim>\<open>x.constructor\<close> gets neither a type of the table nor the fallback.
\<close>

lemma contentType_inherited_key:
  "contentType ''images'' ''x.constructor'' = ''function Object() { [native code] }'' \<and>
   contentType ''videos'' ''x.__proto__'' = ''[object Object]''"
  by code_simp

text \<open>
  C7, amended. The Content-Type of a served file is \<^verbatim>\<open>contentType\<close> of the
  type and the file name. It is found from the type and the extension (the
  piece of the name after its last dot, lowercased): with type \<^verbatim>\<open>images\<close>
  the image table with \<^verbatim>\<open>image/jpeg\<close> for an extension it does not have,
  with every other type the video table with \<^verbatim>\<open>video/mp4\<close> for an extension
  it does not have. The two extensions \<^verbatim>\<open>constructor\<close> and \<^verbatim>\<open>__proto__\<close>,
  which the lookup finds on the prototype of the table, are left out.
\<close>

theorem contentType_by_type_and_extension:
  "(extension fileName \<noteq> ''constructor'' \<and> extension fileName \<noteq> ''__proto__'' \<longrightarrow>
      contentType type fileName =
        (if type = ''images''
         then (case map_of imageTypes (extension fileName) of
                 Some mime \<Rightarrow> mime | None \<Rightarrow> ''image/jpeg'')
         else (case map_of videoTypes (extension fileName) of
                 Some mime \<Rightarrow> mime | None \<Rightarrow> ''video/mp4''))) \<and>
   (media_GET cwd fs (Some fileName) (Some type) = BufferResponse headers bytes \<longrightarrow>
      map_of headers ''Content-Type'' = Some (contentType type fileName)) \<and>
   (CHR ''.'' \<notin> set e \<longrightarrow> extension (stem @ ''.'' @ e) = toLowerCase e)"
proof -
  have "inherited (extension fileName) = None"
    if "extension fileName \<noteq> ''constructor''" "extension fileName \<noteq> ''__proto__''"
    using that unfolding extension_def by (rule inherited_toLowerCase)
  then have a: "extension fileName \<noteq> ''constructor'' \<and> extension fileName \<noteq> ''__proto__'' \<longrightarrow>
      contentType type fileName =
        (if type = ''images''
         then (case map_of imageTypes (extension fileName) of
                 Some mime \<Rightarrow> mime | None \<Rightarrow> ''image/jpeg'')
         else (case map_of videoTypes (extension fileName) of
                 Some mime \<Rightarrow> mime | None \<Rightarrow> ''video/mp4''))"
    by (auto simp: contentType_def property_def Let_def split: option.splits)
  have b: "media_GET cwd fs (Some fileName) (Some type) = BufferResponse headers bytes \<longrightarrow>
      map_of headers ''Content-Type'' = Some (contentType type fileName)"
    by (auto simp: media_GET_def Let_def media_headers_def missing_parameter_def
        file_not_found_def failed_to_serve_def split: if_splits sum.splits)
  from a b extension_after_last_dot [of e stem] show ?thesis by blast
qed

theorem contentType_by_type_and_extension_witness:
  "(extension ''Holiday.Photo.JPG'' \<noteq> ''constructor'' \<and> extension ''Holiday.Photo.JPG'' \<noteq> ''__proto__'') \<and>
   extension ''Holiday.Photo.JPG'' = ''jpg'' \<and>
   contentType ''images'' ''Holiday.Photo.JPG'' = ''image/jpeg'' \<and>
   contentType ''videos'' ''Holiday.Photo.JPG'' = ''video/mp4'' \<and>
   media_GET ''/app'' example_fs (Some ''clip.MP4'') (Some ''videos'') =
     BufferResponse (media_headers ''videos'' ''clip.MP4'' [5, 6]) [5, 6] \<and>
   map_of (media_headers ''videos'' ''clip.MP4'' [5, 6]) ''Content-Type'' = Some ''video/mp4'' \<and>
   CHR ''.'' \<notin> set ''JPG'' \<and> extension (''Holiday.Photo'' @ ''.'' @ ''JPG'') = toLowerCase ''JPG''"
proof -
  have h: "extension ''Holiday.Photo.JPG'' \<noteq> ''constructor'' \<and>
      extension ''Holiday.Photo.JPG'' \<noteq> ''__proto__''"
    by code_simp
  have e: "extension ''Holiday.Photo.JPG'' = ''jpg''"
    by code_simp
  have m: "media_GET ''/app'' example_fs (Some ''clip.MP4'') (Some ''videos'') =
     BufferResponse (media_headers ''videos'' ''clip.MP4'' [5, 6]) [5, 6]"
    by code_simp
  have d: "CHR ''.'' \<notin> set ''JPG''"
    by simp
  have i: "(case map_of imageTypes ''jpg'' of Some mime \<Rightarrow> mime | None \<Rightarrow> ''image/jpeg'') = ''image/jpeg''"
    by code_simp
  have v: "(case map_of videoTypes ''jpg'' of Some mime \<Rightarrow> mime | None \<Rightarrow> ''video/mp4'') = ''video/mp4''"
    by code_simp
  have ct: "contentType ''videos'' ''clip.MP4'' = ''video/mp4''"
    by code_simp
  have ne: "''videos'' \<noteq> ''images''"
    by simp
  note t = contentType_by_type_and_extension
  from t [of "''Holiday.Photo.JPG''" "''images''"] h
  have c1: "contentType ''images'' ''Holiday.Photo.JPG'' = ''image/jpeg''"
    unfolding e i by simp
  from t [of "''Holiday.Photo.JPG''" "''videos''"] h ne
  have c2: "contentType ''videos'' ''Holiday.Photo.JPG'' = ''video/mp4''"
    unfolding e v by simp
  from t [of "''clip.MP4''" "''videos''" "''/app''" example_fs "media_headers ''videos'' ''clip.MP4'' [5, 6]" "[5, 6]"] m
  have c3: "map_of (media_headers ''videos'' ''clip.MP4'' [5, 6]) ''Content-Type'' = Some ''video/mp4''"
    unfolding ct by blast
  from t [of _ _ _ _ _ _ "''JPG''" "''Holiday.Photo''"] d
  have c4: "extension (''Holiday.Photo'' @ ''.'' @ ''JPG'') = toLowerCase ''JPG''"
    by blast
  from h e c1 c2 m c3 d c4 show ?thesis
    by blast
qed

subsection \<open>GET /api/files\<close>

lemma regex_test_dotted: "regex_test exts file = dotted_extension exts file"
  by (auto simp: regex_test_def dotted_extension_def list_ex_iff suffix_def)

text \<open>
  C5 as stated fails: the entry \<^verbatim>\<open>notajpg\<close> of \<^verbatim>\<open>public/images\<close> ends in
  \<^verbatim>\<open>jpg\<close> and is not listed. The pattern asks for a dot before the
  extension.
\<close>

theorem files_GET_needs_dot:
  "files_GET ''/app'' example_fs (Some ''images'') =
     JsonResponse 200 [(''files'', JStrings [''a.png'', ''B.JPEG''])] \<and>
   readdir example_fs (folderPath ''/app'' (Some ''images'')) =
     Inr [''a.png'', ''notajpg'', ''B.JPEG'', ''notes.txt''] \<and>
   suffix ''jpg'' (toLowerCase ''notajpg'')"
  by code_simp

text \<open>
  C5, amended. The handler lists, in directory order, the entries of
  \<^verbatim>\<open>public/images\<close> (type \<^verbatim>\<open>images\<close>) or \<^verbatim>\<open>public/videos\<close> (every other
  type, and no type) whose names end, letters compared without case, in a dot
  followed by one of the extensions of that type; it answers 500
  \<^verbatim>\<open>Failed to read files\<close>, with no file names, exactly when reading the
  directory fails.
\<close>

theorem files_GET_listing:
  "files_GET cwd fs type =
     (case readdir fs (folderPath cwd type) of
        Inl e \<Rightarrow> JsonResponse 500 [(''error'', JString ''Failed to read files'')]
      | Inr entries \<Rightarrow>
          JsonResponse 200 [(''files'', JStrings (filter
            (dotted_extension (if type = Some ''images'' then image_extensions else video_extensions))
            entries))]) \<and>
   ((\<exists>body. files_GET cwd fs type = JsonResponse 500 body) \<longleftrightarrow>
      (\<exists>e. readdir fs (folderPath cwd type) = Inl e)) \<and>
   folderPath cwd type =
     (if type = Some ''images'' then join [join [cwd, ''public''], ''images'']
      else join [join [cwd, ''public''], ''videos''])"
  by (auto simp: files_GET_def regex_test_dotted folderPath_def split: sum.splits cong: filter_cong)

subsection \<open>POST /api/upload\<close>



subsection \<open>Loops that the machine counts\<close>

text \<open>A loop over integers that the machine counts runs through them in order.\<close>

lemma for_loop_counts:
  assumes "\<forall>m. k \<le> m \<and> m < n \<longrightarrow> rounded A (real_of_int (m + 1)) = real_of_int (m + 1)"
      and "\<forall>m. k \<le> m \<and> m < n \<longrightarrow> body (real_of_int m) = Some (f m)"
  shows "for_loop A body (real_of_int k) (real_of_int n) drawn = Some (drawn @ concat (map f [k..n - 1]))"
  using assms
proof (induction "nat (n - k)" arbitrary: k drawn)
  case 0
  then have "\<not> real_of_int k < real_of_int n"
    by simp
  moreover from 0 have "[k..n - 1] = []"
    by simp
  ultimately show ?case
    by (subst for_loop.simps) simp
next
  case (Suc d)
  then have lt: "k < n"
    by linarith
  then have u: "[k..n - 1] = k # [k + 1..n - 1]"
    by (simp add: upto_rec1)
  from Suc.prems lt have b: "body (real_of_int k) = Some (f k)"
    by simp
  from Suc.prems lt have r: "machine_plus A (real_of_int k) 1 = real_of_int (k + 1)"
    by (simp add: machine_plus_def)
  from Suc.hyps have d: "d = nat (n - (k + 1))"
    by linarith
  have "for_loop A body (real_of_int (k + 1)) (real_of_int n) (drawn @ f k) =
      Some ((drawn @ f k) @ concat (map f [k + 1..n - 1]))"
    using Suc.prems by (intro Suc.hyps(1) [OF d]) auto
  with lt b r u show ?case
    by (subst for_loop.simps) simp
qed

lemma for_steps_counts:
  assumes "counts_to A n"
      and "\<forall>m. - n \<le> m \<and> m < n \<longrightarrow> body (real_of_int m) = Some (f m)"
  shows "for_steps A (Finite (real_of_int n)) body = Some (concat (map f [- n..n - 1]))"
proof -
  have "\<forall>m. - n \<le> m \<and> m < n \<longrightarrow> rounded A (real_of_int (m + 1)) = real_of_int (m + 1)"
  proof (intro allI impI)
    fix m
    assume "- n \<le> m \<and> m < n"
    then have "\<bar>m + 1\<bar> \<le> \<bar>n\<bar>"
      by linarith
    with assms(1) show "rounded A (real_of_int (m + 1)) = real_of_int (m + 1)"
      unfolding counts_to_def by blast
  qed
  from for_loop_counts [OF this assms(2), of "[]"] show ?thesis
    by (simp add: for_steps_def)
qed

lemma steps_number:
  assumes "spacing \<noteq> 0" "\<not> overflows A (d / spacing)" "counts_to A (steps A d spacing)"
  shows "plus_number A (Math_ceil (machine_divide A d spacing)) 2 = Finite (real_of_int (steps A d spacing))"
proof -
  from assms(3) have "rounded A (real_of_int (steps A d spacing)) = real_of_int (steps A d spacing)"
    unfolding counts_to_def by blast
  then have "rounded A (real_of_int \<lceil>rounded A (d / spacing)\<rceil> + 2) = real_of_int (steps A d spacing)"
    by (simp add: steps_def)
  with assms(1,2) show ?thesis
    by (simp add: plus_number_def Math_ceil_def machine_divide_def machine_plus_def)
qed

lemma concat_product:
  "concat (map (\<lambda>i. concat (map (\<lambda>j. if P (g (i, j)) then c (g (i, j)) else []) js)) is) =
   concat (map c (filter P (map g (List.product is js))))"
proof (induction "is")
  case Nil
  show ?case by simp
next
  case (Cons i "is")
  have "concat (map (\<lambda>j. if P (g (i, j)) then c (g (i, j)) else []) js) =
      concat (map c (filter P (map g (map (Pair i) js))))"
    by (induction js) auto
  with Cons show ?case
    by simp
qed

lemma set_tiling_list: "set (tiling_list A w h tw fs) = tiling_positions A w h tw fs"
proof (intro set_eqI iffI)
  fix p
  assume "p \<in> set (tiling_list A w h tw fs)"
  then obtain i j where "- steps A (diagonal A w h) (spacing_x A tw) \<le> i"
    "i < steps A (diagonal A w h) (spacing_x A tw)"
    "- steps A (diagonal A w h) (spacing_y A fs) \<le> j" "j < steps A (diagonal A w h) (spacing_y A fs)"
    "p = position A w h (spacing_x A tw) (spacing_y A fs) (i, j)" "in_bounds A w h tw fs p"
    unfolding tiling_list_def by auto
  then show "p \<in> tiling_positions A w h tw fs"
    unfolding tiling_positions_def by blast
next
  fix p
  assume "p \<in> tiling_positions A w h tw fs"
  then obtain i j where "- steps A (diagonal A w h) (spacing_x A tw) \<le> i"
    "i < steps A (diagonal A w h) (spacing_x A tw)"
    "- steps A (diagonal A w h) (spacing_y A fs) \<le> j" "j < steps A (diagonal A w h) (spacing_y A fs)"
    "p = position A w h (spacing_x A tw) (spacing_y A fs) (i, j)" "in_bounds A w h tw fs p"
    unfolding tiling_positions_def by blast
  then show "p \<in> set (tiling_list A w h tw fs)"
    unfolding tiling_list_def
    by (auto intro!: image_eqI [where x = "(i, j)"])
qed

text \<open>
  What the watermark block draws when the formulas of the tiling are
  defined: the set-up, the text at the positions of the tiling in the order
  of the loops, and the closing \<^verbatim>\<open>restore\<close>.
\<close>

lemma draw_watermark_tiles:
  assumes "tiling_defined A (real w) (real h) (measureText (font_size A w h) text) (font_size A w h)"
  shows "draw_watermark A measureText text w h =
     Some (watermark_setup A (font_size A w h) @
           concat (map (\<lambda>p. [Save, Translate (fst p) (snd p), Rotate (- Math_PI A / 4),
                               StrokeText text 0 0, FillText text 0 0, Restore])
             (tiling_list A (real w) (real h) (measureText (font_size A w h) text) (font_size A w h))) @
           [Restore])"
proof -
  define fs where "fs = font_size A w h"
  define tw where "tw = measureText fs text"
  define sx where "sx = spacing_x A tw"
  define sy where "sy = spacing_y A fs"
  define d where "d = diagonal A (real w) (real h)"
  define nx where "nx = steps A d sx"
  define ny where "ny = steps A d sy"
  define calls where "calls = (\<lambda>p. [Save, Translate (fst p) (snd p), Rotate (- Math_PI A / 4),
                               StrokeText text 0 0, FillText text 0 0, Restore])"
  define cell where "cell = (\<lambda>ij. if in_bounds A (real w) (real h) tw fs (position A (real w) (real h) sx sy ij)
      then calls (position A (real w) (real h) sx sy ij) else [])"
  define body where "body = (\<lambda>i j.
     Some (if - tw < machine_minus A
                        (machine_plus A (real w / 2)
                           (machine_times A (machine_times A i sx) (Math_cos A (- Math_PI A / 4))))
                        (machine_times A (machine_times A j sy) (Math_sin A (- Math_PI A / 4))) \<and>
              machine_minus A
                        (machine_plus A (real w / 2)
                           (machine_times A (machine_times A i sx) (Math_cos A (- Math_PI A / 4))))
                        (machine_times A (machine_times A j sy) (Math_sin A (- Math_PI A / 4)))
                < machine_plus A (real w) tw \<and>
              - fs < machine_plus A
                        (machine_plus A (real h / 2)
                           (machine_times A (machine_times A i sx) (Math_sin A (- Math_PI A / 4))))
                        (machine_times A (machine_times A j sy) (Math_cos A (- Math_PI A / 4))) \<and>
              machine_plus A
                        (machine_plus A (real h / 2)
                           (machine_times A (machine_times A i sx) (Math_sin A (- Math_PI A / 4))))
                        (machine_times A (machine_times A j sy) (Math_cos A (- Math_PI A / 4)))
                < machine_plus A (real h) fs
           then [Save,
                 Translate
                   (machine_minus A
                        (machine_plus A (real w / 2)
                           (machine_times A (machine_times A i sx) (Math_cos A (- Math_PI A / 4))))
                        (machine_times A (machine_times A j sy) (Math_sin A (- Math_PI A / 4))))
                   (machine_plus A
                        (machine_plus A (real h / 2)
                           (machine_times A (machine_times A i sx) (Math_sin A (- Math_PI A / 4))))
                        (machine_times A (machine_times A j sy) (Math_cos A (- Math_PI A / 4)))),
                 Rotate (- Math_PI A / 4), StrokeText text 0 0, FillText text 0 0, Restore]
           else []))"
  from assms have td: "sx \<noteq> 0" "sy \<noteq> 0" "\<not> overflows A (d / sx)" "\<not> overflows A (d / sy)"
    "counts_to A nx" "counts_to A ny"
    unfolding tiling_defined_def loops_counted_def fs_def [symmetric] tw_def [symmetric] sx_def [symmetric]
      sy_def [symmetric] d_def [symmetric] nx_def [symmetric] ny_def [symmetric]
    by blast+
  have nx: "plus_number A (Math_ceil (machine_divide A d sx)) 2 = Finite (real_of_int nx)"
    unfolding nx_def using td(1,3,5) unfolding nx_def by (rule steps_number)
  have ny: "plus_number A (Math_ceil (machine_divide A d sy)) 2 = Finite (real_of_int ny)"
    unfolding ny_def using td(2,4,6) unfolding ny_def by (rule steps_number)
  have unfolded: "draw_watermark A measureText text w h =
     (case for_steps A (plus_number A (Math_ceil (machine_divide A d sx)) 2)
             (\<lambda>i. for_steps A (plus_number A (Math_ceil (machine_divide A d sy)) 2) (body i))
      of None \<Rightarrow> None
       | Some stamps \<Rightarrow> Some (watermark_setup A fs @ stamps @ [Restore]))"
    unfolding draw_watermark_def Let_def body_def d_def diagonal_def sx_def sy_def spacing_x_def spacing_y_def
      tw_def fs_def font_size_def machine_times_def
    by (simp only: mult.commute [of _ "15 / 10"] mult.commute [of _ 2])
  have cell: "body (real_of_int i) (real_of_int j) = Some (cell (i, j))" for i j
    by (simp add: body_def cell_def calls_def position_def in_bounds_def)
  have inner: "for_steps A (Finite (real_of_int ny)) (body (real_of_int i)) =
      Some (concat (map (\<lambda>j. cell (i, j)) [- ny..ny - 1]))" for i
    using td(6) by (intro for_steps_counts) (simp_all add: cell)
  have outer: "for_steps A (Finite (real_of_int nx)) (\<lambda>i. for_steps A (Finite (real_of_int ny)) (body i)) =
      Some (concat (map (\<lambda>i. concat (map (\<lambda>j. cell (i, j)) [- ny..ny - 1])) [- nx..nx - 1]))"
    using td(5) by (intro for_steps_counts) (simp_all add: inner)
  have "concat (map (\<lambda>i. concat (map (\<lambda>j. cell (i, j)) [- ny..ny - 1])) [- nx..nx - 1]) =
      concat (map calls (tiling_list A (real w) (real h) tw fs))"
    unfolding cell_def tiling_list_def nx_def ny_def d_def sx_def sy_def
    by (rule concat_product)
  with unfolded nx ny outer show ?thesis
    unfolding calls_def tw_def fs_def
    by simp
qed

subsection \<open>Rounding that keeps the sizes of a canvas\<close>

lemma set_dimension_le:
  assumes "d \<le> 2147483647" shows "set_dimension d x \<le> 2147483647"
  using assms by (simp add: set_dimension_def Let_def)

lemma font_size_ge: "20 \<le> font_size A w h"
  by (simp add: font_size_def)

lemma keeps_sizes_mono:
  assumes "keeps_sizes A" "x \<le> y" shows "rounded A x \<le> rounded A y"
  using assms unfolding keeps_sizes_def by blast

lemma keeps_sizes_nat:
  assumes "keeps_sizes A" "n \<le> 2147483647"
  shows "rounded A (real n) = real n" and "rounded A (real n / 2) = real n / 2"
  using assms unfolding keeps_sizes_def by blast+

lemma keeps_sizes_zero:
  assumes "keeps_sizes A" shows "rounded A 0 = 0"
  using keeps_sizes_nat(1) [OF assms, of 0] by simp

lemma keeps_sizes_twenty:
  assumes "keeps_sizes A" shows "rounded A 20 = 20"
  using keeps_sizes_nat(1) [OF assms, of 20] by simp

lemma spacing_positive:
  assumes "keeps_sizes A" "0 < tw" "rounded A tw = tw" "20 \<le> fs"
  shows "0 < spacing_x A tw" and "0 < spacing_y A fs"
proof -
  from assms(2) have "tw \<le> 1.5 * tw"
    by simp
  with assms(1) have "rounded A tw \<le> rounded A (1.5 * tw)"
    by (rule keeps_sizes_mono)
  with assms(2,3) show "0 < spacing_x A tw"
    by (simp add: spacing_x_def machine_times_def)
  from assms(4) have "20 \<le> 2 * fs"
    by simp
  with assms(1) have "rounded A 20 \<le> rounded A (2 * fs)"
    by (rule keeps_sizes_mono)
  with keeps_sizes_twenty [OF assms(1)] show "0 < spacing_y A fs"
    by (simp add: spacing_y_def machine_times_def)
qed

lemma diagonal_not_negative:
  assumes "keeps_sizes A" shows "0 \<le> diagonal A w h"
proof -
  have "rounded A 0 \<le> rounded A (w * w)" "rounded A 0 \<le> rounded A (h * h)"
    using assms by (intro keeps_sizes_mono; simp)+
  then have "0 \<le> rounded A (w * w) + rounded A (h * h)"
    by (simp add: keeps_sizes_zero [OF assms])
  with assms have "rounded A 0 \<le> rounded A (rounded A (w * w) + rounded A (h * h))"
    by (rule keeps_sizes_mono)
  then have "0 \<le> machine_plus A (machine_times A w w) (machine_times A h h)"
    by (simp add: keeps_sizes_zero [OF assms] machine_plus_def machine_times_def)
  with assms show ?thesis
    unfolding keeps_sizes_def diagonal_def by blast
qed

lemma steps_positive:
  assumes "keeps_sizes A" "0 < spacing"
  shows "0 < steps A (diagonal A w h) spacing"
proof -
  from assms have "0 \<le> diagonal A w h / spacing"
    by (simp add: diagonal_not_negative)
  with assms(1) have "rounded A 0 \<le> rounded A (diagonal A w h / spacing)"
    by (rule keeps_sizes_mono)
  with keeps_sizes_zero [OF assms(1)] have "- 1 < rounded A (diagonal A w h / spacing)"
    by linarith
  then have "0 \<le> \<lceil>rounded A (diagonal A w h / spacing)\<rceil>"
    by (simp only: zero_le_ceiling)
  then show ?thesis
    unfolding steps_def by linarith
qed

lemma centre_position:
  assumes "keeps_sizes A" "w \<le> 2147483647" "h \<le> 2147483647"
  shows "position A (real w) (real h) sx sy (0, 0) = (real w / 2, real h / 2)"
  by (simp only: position_def machine_plus_def machine_minus_def machine_times_def fst_conv snd_conv
      of_int_0 mult_zero_left add_0_right diff_zero keeps_sizes_zero [OF assms(1)]
      keeps_sizes_nat(2) [OF assms(1,2)] keeps_sizes_nat(2) [OF assms(1,3)])

lemma centre_in_bounds:
  assumes "keeps_sizes A" "w \<le> 2147483647" "h \<le> 2147483647" "0 < tw" "rounded A tw = tw" "20 \<le> fs"
  shows "in_bounds A (real w) (real h) tw fs (real w / 2, real h / 2)"
proof -
  note rw = keeps_sizes_nat(1) [OF assms(1,2)] and rh = keeps_sizes_nat(1) [OF assms(1,3)]
  have x: "real w / 2 < machine_plus A (real w) tw"
  proof (cases "w = 0")
    case True
    with assms(4,5) show ?thesis
      by (simp add: machine_plus_def)
  next
    case False
    from assms(4) have "real w \<le> real w + tw"
      by simp
    with assms(1) have "rounded A (real w) \<le> rounded A (real w + tw)"
      by (rule keeps_sizes_mono)
    with rw False show ?thesis
      by (simp add: machine_plus_def)
  qed
  have y: "real h / 2 < machine_plus A (real h) fs"
  proof (cases "h = 0")
    case True
    from assms(1,6) have "rounded A 20 \<le> rounded A fs"
      by (rule keeps_sizes_mono)
    with keeps_sizes_twenty [OF assms(1)] True show ?thesis
      by (simp add: machine_plus_def)
  next
    case False
    from assms(6) have "real h \<le> real h + fs"
      by simp
    with assms(1) have "rounded A (real h) \<le> rounded A (real h + fs)"
      by (rule keeps_sizes_mono)
    with rh False show ?thesis
      by (simp add: machine_plus_def)
  qed
  from assms(4,6) x y show ?thesis
    by (simp add: in_bounds_def)
qed

lemma sublist_concat_map:
  assumes "p \<in> set ps" shows "sublist (c p) (before @ concat (map c ps) @ after)"
proof -
  from assms obtain as bs where "ps = as @ p # bs"
    by (auto dest: split_list)
  then have "before @ concat (map c ps) @ after =
      (before @ concat (map c as)) @ c p @ (concat (map c bs) @ after)"
    by simp
  then show ?thesis
    unfolding sublist_def by blast
qed

text \<open>The centre of the canvas is a position of the tiling.\<close>

lemma centre_in_tiling:
  assumes "keeps_sizes A" "w \<le> 2147483647" "h \<le> 2147483647" "0 < tw" "rounded A tw = tw" "20 \<le> fs"
  shows "(real w / 2, real h / 2) \<in> set (tiling_list A (real w) (real h) tw fs)"
proof -
  have sx: "0 < spacing_x A tw" and sy: "0 < spacing_y A fs"
    using assms(1,4,5,6) by (rule spacing_positive)+
  have nx: "0 < steps A (diagonal A (real w) (real h)) (spacing_x A tw)"
    using assms(1) sx by (rule steps_positive)
  have ny: "0 < steps A (diagonal A (real w) (real h)) (spacing_y A fs)"
    using assms(1) sy by (rule steps_positive)
  have p: "position A (real w) (real h) (spacing_x A tw) (spacing_y A fs) (0, 0) = (real w / 2, real h / 2)"
    using assms(1,2,3) by (rule centre_position)
  have b: "in_bounds A (real w) (real h) tw fs (real w / 2, real h / 2)"
    using assms by (rule centre_in_bounds)
  from nx ny p b have "(real w / 2, real h / 2) \<in> tiling_positions A (real w) (real h) tw fs"
    unfolding tiling_positions_def
    by (auto intro!: exI [where x = "0::int"])
  then show ?thesis
    by (simp only: set_tiling_list)
qed

text \<open>
  On a canvas that a text can be drawn on, the watermark block returns, and
  among its calls are, in a row, those that stroke and fill the text at the
  centre of the canvas.
\<close>

lemma draw_watermark_centre:
  assumes "keeps_sizes A" "w \<le> 2147483647" "h \<le> 2147483647"
      and "watermark_drawable A measureText watermarkText w h"
  shows "\<exists>ops. draw_watermark A measureText watermarkText w h = Some ops \<and>
     sublist [Save, Translate (real w / 2) (real h / 2), Rotate (- Math_PI A / 4),
              StrokeText watermarkText 0 0, FillText watermarkText 0 0, Restore] ops"
proof -
  define fs where "fs = font_size A w h"
  define tw where "tw = measureText fs watermarkText"
  define calls where "calls = (\<lambda>p. [Save, Translate (fst p) (snd p), Rotate (- Math_PI A / 4),
      StrokeText watermarkText 0 0, FillText watermarkText 0 0, Restore])"
  from assms(4) have tw: "0 < tw" "rounded A tw = tw" and lc: "loops_counted A (real w) (real h) tw fs"
    unfolding watermark_drawable_def tw_def fs_def by blast+
  have fs: "20 \<le> fs"
    unfolding fs_def by (rule font_size_ge)
  have sx: "0 < spacing_x A tw" and sy: "0 < spacing_y A fs"
    using assms(1) tw fs by (rule spacing_positive)+
  with lc have "tiling_defined A (real w) (real h) tw fs"
    by (simp add: tiling_defined_def)
  then have d: "draw_watermark A measureText watermarkText w h =
      Some (watermark_setup A fs @ concat (map calls (tiling_list A (real w) (real h) tw fs)) @ [Restore])"
    unfolding tw_def fs_def calls_def by (rule draw_watermark_tiles)
  have "(real w / 2, real h / 2) \<in> set (tiling_list A (real w) (real h) tw fs)"
    using assms(1,2,3) tw fs by (rule centre_in_tiling)
  then have "sublist (calls (real w / 2, real h / 2))
      (watermark_setup A fs @ concat (map calls (tiling_list A (real w) (real h) tw fs)) @ [Restore])"
    by (rule sublist_concat_map)
  with d show ?thesis
    by (simp add: calls_def)
qed

subsection \<open>Doubles\<close>

text \<open>Rounding to the nearest integer, ties to even, is monotone and leaves the integers alone.\<close>

lemma round_to_even_bounds: "\<lfloor>q\<rfloor> \<le> round_to_even q" "round_to_even q \<le> \<lfloor>q\<rfloor> + 1"
  by (simp_all add: round_to_even_def Let_def)

lemma round_to_even_mono:
  assumes "q \<le> r" shows "round_to_even q \<le> round_to_even r"
proof (cases "\<lfloor>q\<rfloor> < \<lfloor>r\<rfloor>")
  case True
  have "round_to_even q \<le> \<lfloor>q\<rfloor> + 1"
    by (rule round_to_even_bounds)
  also from True have "\<dots> \<le> \<lfloor>r\<rfloor>"
    by simp
  also have "\<dots> \<le> round_to_even r"
    by (rule round_to_even_bounds)
  finally show ?thesis .
next
  case False
  with assms have "\<lfloor>q\<rfloor> = \<lfloor>r\<rfloor>"
    by (simp add: floor_mono order_antisym)
  with assms show ?thesis
    by (auto simp add: round_to_even_def Let_def)
qed

lemma round_to_even_of_int: "round_to_even (real_of_int k) = k"
  by (simp add: round_to_even_def)

lemma round_to_even_le:
  assumes "q \<le> real_of_int k" shows "round_to_even q \<le> k"
  using round_to_even_mono [OF assms] by (simp add: round_to_even_of_int)

lemma round_to_even_ge:
  assumes "real_of_int k \<le> q" shows "k \<le> round_to_even q"
  using round_to_even_mono [OF assms] by (simp add: round_to_even_of_int)


lemma below_next_power:
  assumes "0 < x" shows "x < 2 powr (real_of_int (exponent x) + 1)"
proof -
  have "log 2 x < real_of_int \<lfloor>log 2 x\<rfloor> + 1"
    by linarith
  also have "\<dots> \<le> real_of_int (exponent x) + 1"
    by (simp add: exponent_def)
  finally have "2 powr log 2 x < 2 powr (real_of_int (exponent x) + 1)"
    by simp
  with assms show ?thesis
    by simp
qed

lemma above_power:
  assumes "0 < x" "- 1022 \<le> \<lfloor>log 2 x\<rfloor>" shows "2 powr real_of_int (exponent x) \<le> x"
proof -
  from assms(2) have "exponent x = \<lfloor>log 2 x\<rfloor>"
    by (simp add: exponent_def)
  then have "real_of_int (exponent x) \<le> log 2 x"
    by simp
  then have "2 powr real_of_int (exponent x) \<le> 2 powr log 2 x"
    by simp
  with assms(1) show ?thesis
    by simp
qed

lemma exponent_mono:
  assumes "0 < x" "x \<le> y" shows "exponent x \<le> exponent y"
proof -
  from assms have "log 2 x \<le> log 2 y"
    by simp
  then have "\<lfloor>log 2 x\<rfloor> \<le> \<lfloor>log 2 y\<rfloor>"
    by (rule floor_mono)
  then show ?thesis
    by (simp add: exponent_def)
qed

lemma binary64_magnitude_not_negative:
  assumes "0 \<le> x" shows "0 \<le> binary64_magnitude x"
proof (cases "x = 0")
  case True
  then show ?thesis by (simp add: binary64_magnitude_def)
next
  case False
  with assms have "real_of_int 0 \<le> x / 2 powr (real_of_int (exponent x) - 52)"
    by simp
  then have "0 \<le> round_to_even (x / 2 powr (real_of_int (exponent x) - 52))"
    by (rule round_to_even_ge)
  with False show ?thesis
    by (simp add: binary64_magnitude_def)
qed

lemma binary64_magnitude_le_power:
  assumes "0 < x" shows "binary64_magnitude x \<le> 2 powr (real_of_int (exponent x) + 1)"
proof -
  define u where "u = 2 powr (real_of_int (exponent x) - 52)"
  have u: "0 < u"
    by (simp add: u_def)
  have p: "2 powr (real_of_int (exponent x) + 1) = 2 ^ 53 * u"
  proof -
    have "real_of_int (exponent x) + 1 = 53 + (real_of_int (exponent x) - 52)"
      by linarith
    then have "2 powr (real_of_int (exponent x) + 1) = 2 powr (53 + (real_of_int (exponent x) - 52))"
      by (rule arg_cong)
    also have "\<dots> = 2 powr 53 * u"
      unfolding u_def by (rule powr_add)
    also have "2 powr 53 = (2 :: real) ^ 53"
      using powr_realpow [of 2 53] by simp
    finally show ?thesis .
  qed
  from below_next_power [OF assms] p have "x < 2 ^ 53 * u"
    by simp
  with u have "x / u \<le> real_of_int (2 ^ 53)"
    by (simp add: field_simps)
  then have "round_to_even (x / u) \<le> 2 ^ 53"
    by (rule round_to_even_le)
  then have "real_of_int (round_to_even (x / u)) \<le> 2 ^ 53"
    using of_int_le_iff [of "round_to_even (x / u)" "2 ^ 53", where ?'a = real] by simp
  with u have "real_of_int (round_to_even (x / u)) * u \<le> 2 ^ 53 * u"
    by simp
  with assms p show ?thesis
    by (simp add: binary64_magnitude_def u_def)
qed

lemma binary64_magnitude_ge_power:
  assumes "0 < x" "- 1022 \<le> \<lfloor>log 2 x\<rfloor>"
  shows "2 powr real_of_int (exponent x) \<le> binary64_magnitude x"
proof -
  define u where "u = 2 powr (real_of_int (exponent x) - 52)"
  have u: "0 < u"
    by (simp add: u_def)
  have p: "2 powr real_of_int (exponent x) = 2 ^ 52 * u"
  proof -
    have "2 powr real_of_int (exponent x) = 2 powr (52 + (real_of_int (exponent x) - 52))"
      by simp
    also have "\<dots> = 2 powr 52 * u"
      unfolding u_def by (rule powr_add)
    also have "2 powr 52 = (2 :: real) ^ 52"
      using powr_realpow [of 2 52] by simp
    finally show ?thesis .
  qed
  from above_power [OF assms] p have "2 ^ 52 * u \<le> x"
    by simp
  with u have "real_of_int (2 ^ 52) \<le> x / u"
    by (simp add: field_simps)
  then have "2 ^ 52 \<le> round_to_even (x / u)"
    by (rule round_to_even_ge)
  then have "2 ^ 52 \<le> real_of_int (round_to_even (x / u))"
    using of_int_le_iff [of "2 ^ 52" "round_to_even (x / u)", where ?'a = real] by simp
  with u have "2 ^ 52 * u \<le> real_of_int (round_to_even (x / u)) * u"
    by simp
  with assms p show ?thesis
    by (simp add: binary64_magnitude_def u_def)
qed

lemma binary64_magnitude_mono:
  assumes "0 \<le> x" "x \<le> y" shows "binary64_magnitude x \<le> binary64_magnitude y"
proof (cases "x = 0")
  case True
  with assms binary64_magnitude_not_negative [of y] show ?thesis
    by (simp add: binary64_magnitude_def)
next
  case False
  with assms have x: "0 < x" and y: "0 < y"
    by simp_all
  from x assms(2) have e: "exponent x \<le> exponent y"
    by (rule exponent_mono)
  show ?thesis
  proof (cases "exponent x = exponent y")
    case True
    define u where "u = 2 powr (real_of_int (exponent y) - 52)"
    have u: "0 < u"
      by (simp add: u_def)
    with assms(2) have "x / u \<le> y / u"
      by (simp add: divide_right_mono)
    then have "round_to_even (x / u) \<le> round_to_even (y / u)"
      by (rule round_to_even_mono)
    with u have "real_of_int (round_to_even (x / u)) * u \<le> real_of_int (round_to_even (y / u)) * u"
      by simp
    with x y True show ?thesis
      by (simp add: binary64_magnitude_def u_def)
  next
    case False
    with e have lt: "exponent x < exponent y"
      by simp
    then have "- 1022 < exponent y"
      unfolding exponent_def by linarith
    then have n: "- 1022 \<le> \<lfloor>log 2 y\<rfloor>"
      unfolding exponent_def by linarith
    have "binary64_magnitude x \<le> 2 powr (real_of_int (exponent x) + 1)"
      using x by (rule binary64_magnitude_le_power)
    also from lt have "\<dots> \<le> 2 powr real_of_int (exponent y)"
      by simp
    also have "\<dots> \<le> binary64_magnitude y"
      using y n by (rule binary64_magnitude_ge_power)
    finally show ?thesis .
  qed
qed

lemma binary64_mono:
  assumes "x \<le> y" shows "binary64 x \<le> binary64 y"
proof -
  consider "0 \<le> x" | "x < 0" "y < 0" | "x < 0" "0 \<le> y"
    by linarith
  then show ?thesis
  proof cases
    case 1
    with assms show ?thesis
      by (simp add: binary64_def binary64_magnitude_mono)
  next
    case 2
    with assms have "binary64_magnitude (- y) \<le> binary64_magnitude (- x)"
      by (intro binary64_magnitude_mono) simp_all
    with 2 show ?thesis
      by (simp add: binary64_def)
  next
    case 3
    then have "0 \<le> binary64_magnitude (- x)" "0 \<le> binary64_magnitude y"
      by (simp_all add: binary64_magnitude_not_negative)
    with 3 show ?thesis
      by (simp add: binary64_def)
  qed
qed


lemma binary64_magnitude_dyadic:
  assumes "0 < m" "m < 2 ^ 53" "- 1074 \<le> k"
  shows "binary64_magnitude (real_of_int m * 2 powr real_of_int k) = real_of_int m * 2 powr real_of_int k"
proof -
  define x where "x = real_of_int m * 2 powr real_of_int k"
  define e where "e = exponent x"
  from assms(1) have x: "0 < x"
    by (simp add: x_def)
  from assms(2) have "real_of_int m < 2 ^ 53"
    using of_int_less_iff [of m "2 ^ 53", where ?'a = real] by simp
  then have "x < 2 ^ 53 * 2 powr real_of_int k"
    by (simp add: x_def)
  also have "(2 :: real) ^ 53 * 2 powr real_of_int k = 2 powr (53 + real_of_int k)"
    using powr_realpow [of "2 :: real" 53] by (simp add: powr_add)
  finally have "log 2 x < 53 + real_of_int k"
    using x by (simp add: log_less_iff)
  then have "\<lfloor>log 2 x\<rfloor> < 53 + k"
    by (simp add: floor_less_iff)
  with assms(3) have le: "e \<le> 52 + k"
    by (simp add: e_def exponent_def)
  define n where "n = nat (52 + k - e)"
  from le have "real_of_int k = (real_of_int e - 52) + real n"
    by (simp add: n_def)
  then have "2 powr real_of_int k = 2 powr ((real_of_int e - 52) + real n)"
    by (rule arg_cong)
  also have "\<dots> = 2 powr (real_of_int e - 52) * 2 ^ n"
    using powr_realpow [of "2 :: real" n] by (simp only: powr_add)
  finally have k: "2 powr real_of_int k = 2 powr (real_of_int e - 52) * 2 ^ n" .
  have u: "0 < 2 powr (real_of_int e - 52)"
    by simp
  have q: "x / 2 powr (real_of_int e - 52) = real_of_int (m * 2 ^ n)"
    unfolding x_def k using u by simp
  have "real_of_int (round_to_even (x / 2 powr (real_of_int e - 52))) * 2 powr (real_of_int e - 52) = x"
    unfolding q round_to_even_of_int unfolding x_def k by simp
  with x show ?thesis
    unfolding binary64_magnitude_def x_def [symmetric] e_def [symmetric]
    by simp
qed

lemma binary64_of_int:
  assumes "\<bar>m\<bar> < 2 ^ 53" shows "binary64 (real_of_int m) = real_of_int m"
proof -
  consider "m = 0" | "0 < m" | "m < 0"
    by linarith
  then show ?thesis
  proof cases
    case 1
    then show ?thesis
      by (simp add: binary64_def binary64_magnitude_def)
  next
    case 2
    with assms have "m < 2 ^ 53"
      by simp
    with 2 binary64_magnitude_dyadic [of m 0] show ?thesis
      by (simp add: binary64_def)
  next
    case 3
    with assms have "0 < - m" "- m < 2 ^ 53"
      by simp_all
    with binary64_magnitude_dyadic [of "- m" 0] 3 show ?thesis
      by (simp add: binary64_def)
  qed
qed

lemma binary64_half:
  fixes n :: nat
  assumes "n \<le> 2147483647" shows "binary64 (real n / 2) = real n / 2"
proof (cases "n = 0")
  case True
  then show ?thesis
    by (simp add: binary64_def binary64_magnitude_def)
next
  case False
  from assms have "int n < 2 ^ 53"
    by simp
  moreover from False have "0 < int n"
    by simp
  ultimately have "binary64_magnitude (real_of_int (int n) * 2 powr real_of_int (- 1)) =
      real_of_int (int n) * 2 powr real_of_int (- 1)"
    by (intro binary64_magnitude_dyadic) simp_all
  moreover have "2 powr real_of_int (- 1) = (1 / 2 :: real)"
    using powr_minus [of "2 :: real" 1] by simp
  ultimately have "binary64_magnitude (real n / 2) = real n / 2"
    by simp
  then show ?thesis
    by (simp add: binary64_def)
qed

lemma binary64_power_of_two: "binary64 (2 ^ k) = 2 ^ k"
proof -
  from binary64_magnitude_dyadic [of 1 "int k"] have "binary64_magnitude (2 powr real k) = 2 powr real k"
    by simp
  then show ?thesis
    using powr_realpow [of "2 :: real" k] by (simp add: binary64_def)
qed

lemma binary64_below_power:
  assumes "x \<le> 2 ^ k" shows "binary64 x \<le> 2 ^ k"
  using binary64_mono [OF assms] by (simp add: binary64_power_of_two)

lemma binary64_zero: "binary64 0 = 0"
  by (simp add: binary64_def binary64_magnitude_def)

lemma binary64_not_negative:
  assumes "0 \<le> x" shows "0 \<le> binary64 x"
  using binary64_mono [OF assms] by (simp add: binary64_zero)

lemma double_rounded: "rounded double_arithmetic = binary64"
  by (simp add: double_arithmetic_def)

lemma double_counts_to:
  assumes "\<bar>n\<bar> < 2 ^ 53" shows "counts_to double_arithmetic n"
  unfolding counts_to_def double_rounded
proof (intro allI impI)
  fix m :: int
  assume "\<bar>m\<bar> \<le> \<bar>n\<bar>"
  with assms have "\<bar>m\<bar> < 2 ^ 53"
    by linarith
  then show "binary64 (real_of_int m) = real_of_int m"
    by (rule binary64_of_int)
qed

lemma double_keeps_sizes: "keeps_sizes double_arithmetic"
  unfolding keeps_sizes_def double_rounded
proof (intro conjI allI impI)
  fix x y :: real
  assume "x \<le> y"
  then show "binary64 x \<le> binary64 y"
    by (rule binary64_mono)
next
  fix n :: nat
  assume n: "n \<le> 2147483647"
  then have "\<bar>int n\<bar> < 2 ^ 53"
    by simp
  from binary64_of_int [OF this] show "binary64 (real n) = real n"
    by simp
  from n show "binary64 (real n / 2) = real n / 2"
    by (rule binary64_half)
next
  fix x :: real
  assume "0 \<le> x"
  then have "binary64 0 \<le> binary64 (sqrt x)"
    by (intro binary64_mono) simp
  then show "0 \<le> Math_sqrt double_arithmetic x"
    by (simp add: double_arithmetic_def binary64_def binary64_magnitude_def)
qed

text \<open>
  On a canvas, with spacings of at least one pixel, the loops of the tiling
  are counted by doubles: the diagonal is at most \<open>2\<^sup>3\<^sup>2\<close>, and so is each
  quotient.
\<close>

lemma double_diagonal:
  assumes "w \<le> 2147483647" "h \<le> 2147483647"
  shows "0 \<le> diagonal double_arithmetic (real w) (real h)"
    and "diagonal double_arithmetic (real w) (real h) \<le> 2 ^ 32"
proof -
  show "0 \<le> diagonal double_arithmetic (real w) (real h)"
    using double_keeps_sizes by (rule diagonal_not_negative)
  from assms have "real w \<le> 2147483648" "real h \<le> 2147483648"
    by simp_all
  then have "real w * real w \<le> 2147483648 * 2147483648" "real h * real h \<le> 2147483648 * 2147483648"
    by (intro mult_mono; simp)+
  moreover have "(2147483648 :: real) * 2147483648 = 2 ^ 62"
    by simp
  ultimately have "real w * real w \<le> 2 ^ 62" "real h * real h \<le> 2 ^ 62"
    by (simp_all only:)
  then have "binary64 (real w * real w) \<le> 2 ^ 62" "binary64 (real h * real h) \<le> 2 ^ 62"
    by (simp_all only: binary64_below_power)
  then have "binary64 (real w * real w) + binary64 (real h * real h) \<le> 2 ^ 63"
    by simp
  then have "binary64 (binary64 (real w * real w) + binary64 (real h * real h)) \<le> 2 ^ 63"
    by (rule binary64_below_power)
  also have "(2 :: real) ^ 63 \<le> (2 ^ 32)\<^sup>2"
    by simp
  finally have "sqrt (binary64 (binary64 (real w * real w) + binary64 (real h * real h))) \<le> sqrt ((2 ^ 32)\<^sup>2)"
    by (rule real_sqrt_le_mono)
  then have "sqrt (binary64 (binary64 (real w * real w) + binary64 (real h * real h))) \<le> 2 ^ 32"
    by (simp only: real_sqrt_abs) simp
  then have "binary64 (sqrt (binary64 (binary64 (real w * real w) + binary64 (real h * real h)))) \<le> 2 ^ 32"
    by (rule binary64_below_power)
  then show "diagonal double_arithmetic (real w) (real h) \<le> 2 ^ 32"
    by (simp add: diagonal_def machine_plus_def machine_times_def double_arithmetic_def)
qed

lemma double_steps:
  assumes "0 \<le> d" "d \<le> 2 ^ 32" "1 \<le> spacing"
  shows "\<not> overflows double_arithmetic (d / spacing)"
    and "counts_to double_arithmetic (steps double_arithmetic d spacing)"
proof -
  from assms have q0: "0 \<le> d / spacing"
    by simp
  from assms have "d / spacing \<le> d"
    by (simp add: field_simps mult_le_cancel_left1)
  with assms(2) have q: "d / spacing \<le> 2 ^ 32"
    by linarith
  have "(2 :: real) ^ 32 < 2 ^ 1024 - 2 ^ 970"
    by simp
  with q q0 show "\<not> overflows double_arithmetic (d / spacing)"
    by (simp add: double_arithmetic_def)
  from q0 have r0: "0 \<le> binary64 (d / spacing)"
    by (rule binary64_not_negative)
  from q have "binary64 (d / spacing) \<le> 2 ^ 32"
    by (rule binary64_below_power)
  then have "binary64 (d / spacing) \<le> real_of_int (2 ^ 32)"
    by simp
  then have "\<lceil>binary64 (d / spacing)\<rceil> \<le> 2 ^ 32"
    by (simp only: ceiling_le_iff)
  moreover from r0 have "- 1 < binary64 (d / spacing)"
    by linarith
  then have "0 \<le> \<lceil>binary64 (d / spacing)\<rceil>"
    by (simp only: zero_le_ceiling)
  ultimately have "\<bar>steps double_arithmetic d spacing\<bar> < 2 ^ 53"
    by (simp add: steps_def double_rounded)
  then show "counts_to double_arithmetic (steps double_arithmetic d spacing)"
    by (rule double_counts_to)
qed

lemma double_spacing:
  assumes "1 \<le> tw" "binary64 tw = tw"
  shows "1 \<le> spacing_x double_arithmetic tw" and "1 \<le> spacing_y double_arithmetic (font_size double_arithmetic w h)"
proof -
  from assms(1) have "tw \<le> 1.5 * tw"
    by simp
  then have "binary64 tw \<le> binary64 (1.5 * tw)"
    by (rule binary64_mono)
  with assms show "1 \<le> spacing_x double_arithmetic tw"
    by (simp add: spacing_x_def machine_times_def double_rounded)
  have "20 \<le> font_size double_arithmetic w h"
    by (rule font_size_ge)
  then have "2 ^ 0 \<le> 2 * font_size double_arithmetic w h"
    by simp
  then have "binary64 (2 ^ 0) \<le> binary64 (2 * font_size double_arithmetic w h)"
    by (rule binary64_mono)
  then show "1 \<le> spacing_y double_arithmetic (font_size double_arithmetic w h)"
    by (simp only: binary64_power_of_two) (simp add: spacing_y_def machine_times_def double_rounded)
qed

text \<open>
  So, with doubles, a text whose measured width is a number of at least one
  pixel can be drawn on every canvas, and the formulas of the tiling are
  defined for it.
\<close>

lemma double_loops_counted:
  assumes "w \<le> 2147483647" "h \<le> 2147483647" "1 \<le> tw" "binary64 tw = tw"
  shows "loops_counted double_arithmetic (real w) (real h) tw (font_size double_arithmetic w h)"
  unfolding loops_counted_def
  using double_steps [OF double_diagonal [OF assms(1,2)] double_spacing(1) [OF assms(3,4)]]
    double_steps [OF double_diagonal [OF assms(1,2)] double_spacing(2) [OF assms(3,4)]]
  by (intro conjI)

lemma double_tiling_defined:
  assumes "w \<le> 2147483647" "h \<le> 2147483647" "1 \<le> tw" "binary64 tw = tw"
  shows "tiling_defined double_arithmetic (real w) (real h) tw (font_size double_arithmetic w h)"
proof -
  from double_spacing(1) [OF assms(3,4)] double_spacing(2) [OF assms(3,4), of w h]
  have "spacing_x double_arithmetic tw \<noteq> 0" "spacing_y double_arithmetic (font_size double_arithmetic w h) \<noteq> 0"
    by simp_all
  with double_loops_counted [OF assms] show ?thesis
    by (simp add: tiling_defined_def)
qed

lemma double_drawable:
  assumes "w \<le> 2147483647" "h \<le> 2147483647"
      and "1 \<le> measureText (font_size double_arithmetic w h) watermarkText"
      and "binary64 (measureText (font_size double_arithmetic w h) watermarkText) =
           measureText (font_size double_arithmetic w h) watermarkText"
  shows "watermark_drawable double_arithmetic measureText watermarkText w h"
  using assms(3,4) double_loops_counted [OF assms]
  by (simp add: watermark_drawable_def double_rounded)

lemma double_always_drawable:
  assumes "\<forall>fontSize. 1 \<le> measureText fontSize watermarkText \<and>
             binary64 (measureText fontSize watermarkText) = measureText fontSize watermarkText"
  shows "always_drawable double_arithmetic measureText watermarkText"
  unfolding always_drawable_def
proof (intro allI impI)
  fix w h :: nat
  assume "w \<le> 2147483647 \<and> h \<le> 2147483647"
  with assms show "watermark_drawable double_arithmetic measureText watermarkText w h"
    by (intro double_drawable) simp_all
qed

text \<open>
  With doubles, then, on every canvas and for every text whose measured
  width is a number of at least one pixel, the watermark routine returns and
  draws exactly the tiling.
\<close>

lemma double_draw_watermark:
  assumes "w \<le> 2147483647" "h \<le> 2147483647"
      and "1 \<le> measureText (font_size double_arithmetic w h) text"
      and "binary64 (measureText (font_size double_arithmetic w h) text) =
           measureText (font_size double_arithmetic w h) text"
  shows "draw_watermark double_arithmetic measureText text w h =
     Some (watermark_setup double_arithmetic (font_size double_arithmetic w h) @
           concat (map (\<lambda>p. [Save, Translate (fst p) (snd p), Rotate (- Math_PI double_arithmetic / 4),
                               StrokeText text 0 0, FillText text 0 0, Restore])
             (tiling_list double_arithmetic (real w) (real h)
                (measureText (font_size double_arithmetic w h) text) (font_size double_arithmetic w h))) @
           [Restore])"
  using assms by (intro draw_watermark_tiles double_tiling_defined)

subsection \<open>The watermark tiling\<close>

text \<open>
  C2. On a canvas of width \<open>w\<close> and height \<open>h\<close>, for a text of measured
  width \<open>tw\<close> at the font size \<open>fs\<close> the routine takes, whenever the
  formulas of the tiling are defined (no spacing is zero, no quotient
  overflows, the machine counts to both numbers of steps), the watermark
  routine returns, and what it draws is this function of its inputs: after
  the set-up, for each position of the tiling in turn, the text stroked and
  filled at the origin moved to that position and rotated by \<open>-\<pi>/4\<close>, and
  nothing else but the closing \<^verbatim>\<open>restore\<close>. The positions are
  \<open>x = w/2 + i sx cos(-\<pi>/4) - j sy sin(-\<pi>/4)\<close>,
  \<open>y = h/2 + i sx sin(-\<pi>/4) + j sy cos(-\<pi>/4)\<close> of exactly the integer pairs
  with \<open>-stepsX \<le> i < stepsX\<close>, \<open>-stepsY \<le> j < stepsY\<close>, \<open>-tw < x < w + tw\<close> and
  \<open>-fs < y < h + fs\<close>, where \<open>sx = 1.5 tw\<close>, \<open>sy = 2 fs\<close>,
  \<open>stepsX = \<lceil>sqrt (w\<^sup>2 + h\<^sup>2) / sx\<rceil> + 2\<close> and \<open>stepsY = \<lceil>sqrt (w\<^sup>2 + h\<^sup>2) / sy\<rceil> + 2\<close>,
  every operation being the machine's, as in the code.
\<close>

theorem draw_watermark_tiling:
  assumes "tiling_defined A (real w) (real h) (measureText (font_size A w h) text) (font_size A w h)"
  shows "draw_watermark A measureText text w h =
     Some (watermark_setup A (font_size A w h) @
           concat (map (\<lambda>p. [Save, Translate (fst p) (snd p), Rotate (- Math_PI A / 4),
                               StrokeText text 0 0, FillText text 0 0, Restore])
             (tiling_list A (real w) (real h) (measureText (font_size A w h) text) (font_size A w h))) @
           [Restore]) \<and>
   set (tiling_list A (real w) (real h) (measureText (font_size A w h) text) (font_size A w h)) =
     {p. \<exists>i j.
        - steps A (diagonal A (real w) (real h)) (spacing_x A (measureText (font_size A w h) text)) \<le> i \<and>
        i < steps A (diagonal A (real w) (real h)) (spacing_x A (measureText (font_size A w h) text)) \<and>
        - steps A (diagonal A (real w) (real h)) (spacing_y A (font_size A w h)) \<le> j \<and>
        j < steps A (diagonal A (real w) (real h)) (spacing_y A (font_size A w h)) \<and>
        p = position A (real w) (real h) (spacing_x A (measureText (font_size A w h) text))
              (spacing_y A (font_size A w h)) (i, j) \<and>
        in_bounds A (real w) (real h) (measureText (font_size A w h) text) (font_size A w h) p}"
proof -
  from assms have "draw_watermark A measureText text w h =
     Some (watermark_setup A (font_size A w h) @
           concat (map (\<lambda>p. [Save, Translate (fst p) (snd p), Rotate (- Math_PI A / 4),
                               StrokeText text 0 0, FillText text 0 0, Restore])
             (tiling_list A (real w) (real h) (measureText (font_size A w h) text) (font_size A w h))) @
           [Restore])"
    by (rule draw_watermark_tiles)
  with set_tiling_list [of A "real w" "real h"] show ?thesis
    by (simp add: tiling_positions_def)
qed

theorem draw_watermark_tiling_witness:
  "tiling_defined double_arithmetic (real 800) (real 600)
     (example_measureText (font_size double_arithmetic 800 600) ''TMBC'') (font_size double_arithmetic 800 600) \<and>
   draw_watermark double_arithmetic example_measureText ''TMBC'' 800 600 =
     Some (watermark_setup double_arithmetic (font_size double_arithmetic 800 600) @
           concat (map (\<lambda>p. [Save, Translate (fst p) (snd p), Rotate (- Math_PI double_arithmetic / 4),
                               StrokeText ''TMBC'' 0 0, FillText ''TMBC'' 0 0, Restore])
             (tiling_list double_arithmetic (real 800) (real 600)
                (example_measureText (font_size double_arithmetic 800 600) ''TMBC'')
                (font_size double_arithmetic 800 600))) @
           [Restore]) \<and>
   (400, 300) \<in> set (tiling_list double_arithmetic (real 800) (real 600)
                (example_measureText (font_size double_arithmetic 800 600) ''TMBC'')
                (font_size double_arithmetic 800 600))"
proof -
  have m: "binary64 (real_of_int 48) = real_of_int 48"
    by (rule binary64_of_int) simp
  then have h: "tiling_defined double_arithmetic (real 800) (real 600)
     (example_measureText (font_size double_arithmetic 800 600) ''TMBC'') (font_size double_arithmetic 800 600)"
    by (intro double_tiling_defined) (simp_all add: example_measureText_def)
  from m have "(real 800 / 2, real 600 / 2) \<in> set (tiling_list double_arithmetic (real 800) (real 600)
                (example_measureText (font_size double_arithmetic 800 600) ''TMBC'')
                (font_size double_arithmetic 800 600))"
    by (intro centre_in_tiling double_keeps_sizes font_size_ge)
      (simp_all add: example_measureText_def double_rounded)
  then have c: "(400, 300) \<in> set (tiling_list double_arithmetic (real 800) (real 600)
                (example_measureText (font_size double_arithmetic 800 600) ''TMBC'')
                (font_size double_arithmetic 800 600))"
    by simp
  from draw_watermark_tiling [of double_arithmetic 800 600 example_measureText "''TMBC''"] h c show ?thesis
    by blast
qed

subsection \<open>The size of the canvas\<close>

lemma set_dimension_bounded:
  assumes "0 \<le> r" "r \<le> 800"
  shows "set_dimension d (Finite r) \<le> 800"
proof -
  have f0: "0 \<le> \<lfloor>r\<rfloor>"
    using assms by simp
  have fl: "\<lfloor>r\<rfloor> \<le> 800"
    using assms by (simp add: floor_le_iff)
  have "(800 :: int) < 2 ^ 32"
    by simp
  with fl have "\<lfloor>r\<rfloor> < 2 ^ 32"
    by (rule le_less_trans)
  with f0 have m: "\<lfloor>r\<rfloor> mod 2 ^ 32 = \<lfloor>r\<rfloor>"
    by (rule mod_pos_pos_trivial)
  have "nat (\<lfloor>r\<rfloor> mod 2 ^ 32) \<le> 800"
    unfolding m using fl by linarith
  then have "to_unsigned_long (Finite r) \<le> 800"
    by (simp only: to_unsigned_long_def number.case)
  then show ?thesis
    by (simp add: set_dimension_def Let_def)
qed

lemma set_dimension_limited:
  assumes "x = Infinity \<or> x = NaN \<or> (\<exists>r. x = Finite r \<and> 0 \<le> r \<and> r \<le> 800)"
  shows "set_dimension d x \<le> 800"
  using assms by (auto simp add: set_dimension_bounded) (simp_all add: set_dimension_def to_unsigned_long_def)

text \<open>
  With a rounding that keeps sizes, 800 divided by an aspect of more than 1,
  and 800 times an aspect of at most 1, are between 0 and 800 when they are
  numbers.
\<close>

lemma limited_quotient:
  fixes dw dh :: nat
  assumes "keeps_sizes A" "dw > dh"
  shows "machine_divide_number A 800 (machine_divide A (real dw) (real dh)) = Infinity \<or>
     machine_divide_number A 800 (machine_divide A (real dw) (real dh)) = NaN \<or>
     (\<exists>r. machine_divide_number A 800 (machine_divide A (real dw) (real dh)) = Finite r \<and> 0 \<le> r \<and> r \<le> 800)"
proof (cases "dh = 0 \<or> overflows A (real dw / real dh)")
  case True
  with assms(2) have "machine_divide A (real dw) (real dh) = Infinity"
    by (auto simp add: machine_divide_def)
  then show ?thesis
    by (simp add: machine_divide_number_def)
next
  case False
  define a where "a = rounded A (real dw / real dh)"
  from False have aspect: "machine_divide A (real dw) (real dh) = Finite a"
    by (simp add: machine_divide_def a_def)
  from False assms(2) have "1 \<le> real dw / real dh"
    by simp
  with assms(1) have "rounded A 1 \<le> a"
    unfolding a_def by (rule keeps_sizes_mono)
  with keeps_sizes_nat(1) [OF assms(1), of 1] have a: "1 \<le> a"
    by simp
  show ?thesis
  proof (cases "overflows A (800 / a)")
    case True
    with a aspect show ?thesis
      by (simp add: machine_divide_number_def machine_divide_def)
  next
    case False
    from a have "0 \<le> 800 / a" "800 / a \<le> 800"
      by (simp_all add: field_simps)
    with assms(1) have "rounded A 0 \<le> rounded A (800 / a)" "rounded A (800 / a) \<le> rounded A 800"
      by (simp_all only: keeps_sizes_mono)
    with keeps_sizes_zero [OF assms(1)] keeps_sizes_nat(1) [OF assms(1), of 800]
    have "0 \<le> rounded A (800 / a)" "rounded A (800 / a) \<le> 800"
      by simp_all
    with a aspect False show ?thesis
      by (simp add: machine_divide_number_def machine_divide_def)
  qed
qed

lemma limited_product:
  fixes dw dh :: nat
  assumes "keeps_sizes A" "dw \<le> dh" "800 < dh"
  shows "machine_times_number A 800 (machine_divide A (real dw) (real dh)) = Infinity \<or>
     machine_times_number A 800 (machine_divide A (real dw) (real dh)) = NaN \<or>
     (\<exists>r. machine_times_number A 800 (machine_divide A (real dw) (real dh)) = Finite r \<and> 0 \<le> r \<and> r \<le> 800)"
proof (cases "overflows A (real dw / real dh)")
  case True
  with assms(3) show ?thesis
    by (simp add: machine_divide_def machine_times_number_def)
next
  case False
  define a where "a = rounded A (real dw / real dh)"
  from False assms(3) have aspect: "machine_divide A (real dw) (real dh) = Finite a"
    by (simp add: machine_divide_def a_def)
  from assms(2,3) have "0 \<le> real dw / real dh" "real dw / real dh \<le> 1"
    by simp_all
  with assms(1) have "rounded A 0 \<le> a" "a \<le> rounded A 1"
    unfolding a_def by (simp_all only: keeps_sizes_mono)
  with keeps_sizes_zero [OF assms(1)] keeps_sizes_nat(1) [OF assms(1), of 1] have a: "0 \<le> a" "a \<le> 1"
    by simp_all
  then have "0 \<le> 800 * a" "800 * a \<le> 800"
    by simp_all
  with assms(1) have "rounded A 0 \<le> rounded A (800 * a)" "rounded A (800 * a) \<le> rounded A 800"
    by (simp_all only: keeps_sizes_mono)
  with keeps_sizes_zero [OF assms(1)] keeps_sizes_nat(1) [OF assms(1), of 800]
  have "0 \<le> rounded A (800 * a)" "rounded A (800 * a) \<le> 800"
    by simp_all
  with aspect show ?thesis
    by (simp add: machine_times_number_def machine_times_def)
qed

lemma displaySize_container_aspect_bounded:
  assumes "keeps_sizes A"
  shows "set_dimension 300 (fst (displaySize_container_aspect A container img)) \<le> 800 \<and>
   set_dimension 150 (snd (displaySize_container_aspect A container img)) \<le> 800"
proof -
  define dw where "dw = (case container of None \<Rightarrow> img_width img | Some c \<Rightarrow> clientWidth c)"
  define dh where "dh = (case container of None \<Rightarrow> img_height img | Some c \<Rightarrow> clientHeight c)"
  have eight: "set_dimension d (Finite 800) \<le> 800" for d
    by (rule set_dimension_bounded) simp_all
  consider "dw \<le> 800" "dh \<le> 800" | "dw > 800 \<or> dh > 800" "dw > dh" | "dw > 800 \<or> dh > 800" "dw \<le> dh"
    by linarith
  then show ?thesis
  proof cases
    case 1
    then have "displaySize_container_aspect A container img = (Finite (real dw), Finite (real dh))"
      unfolding displaySize_container_aspect_def dw_def [symmetric] dh_def [symmetric]
      by (simp add: Let_def)
    with 1 show ?thesis
      by (simp add: set_dimension_bounded)
  next
    case 2
    then have "displaySize_container_aspect A container img =
        (Finite 800, machine_divide_number A 800 (machine_divide A (real dw) (real dh)))"
      unfolding displaySize_container_aspect_def dw_def [symmetric] dh_def [symmetric]
      by (simp add: Let_def)
    with set_dimension_limited [OF limited_quotient [OF assms 2(2)]] eight show ?thesis
      by simp
  next
    case 3
    then have dh: "800 < dh"
      by linarith
    from 3 have "displaySize_container_aspect A container img =
        (machine_times_number A 800 (machine_divide A (real dw) (real dh)), Finite 800)"
      unfolding displaySize_container_aspect_def dw_def [symmetric] dh_def [symmetric]
      by (simp add: Let_def)
    with set_dimension_limited [OF limited_product [OF assms 3(2) dh]] eight show ?thesis
      by simp
  qed
qed

lemma double_four: "binary64 4 = 4" "binary64 3200 = 3200"
  using binary64_of_int [of 4] binary64_of_int [of 3200] by simp_all

text \<open>
  C8 (the code at a wide image in a large square container). Without
  \<^verbatim>\<open>fullSize\<close>, a container of 900 by 900 and an image of 1600 by 400 give
  a canvas of 3200 by 800, computed with doubles: the side that is set to 800 is chosen by the
  container's shape, the other side by the image's aspect. The component
  without \<^verbatim>\<open>fullSize\<close> uses the container's aspect for both and stays
  within 800 (lemma \<open>displaySize_container_aspect_bounded\<close>).
\<close>

theorem drawImageToCanvas_exceeds_800:
  "drawImageToCanvas double_arithmetic False [] example_measureText True
      (Some \<lparr>clientWidth = 900, clientHeight = 900\<rparr>)
      (Some \<lparr>img_width = 1600, img_height = 400\<rparr>) True =
     Some (Some \<lparr>pixel_width = 3200, pixel_height = 800,
                 css = [(''width'', Keyword ''100%''), (''height'', Keyword ''100%'')]\<rparr>,
           [ImageSmoothing True ''low'', ClearRect 0 0 3200 800, DrawImage 0 0 3200 800]) \<and>
   displaySize double_arithmetic False (Some \<lparr>clientWidth = 900, clientHeight = 900\<rparr>)
      \<lparr>img_width = 1600, img_height = 400\<rparr> = (Finite 3200, Finite 800) \<and>
   \<not> (3200 :: nat) \<le> 800"
proof -
  have "displaySize double_arithmetic False (Some \<lparr>clientWidth = 900, clientHeight = 900\<rparr>)
      \<lparr>img_width = 1600, img_height = 400\<rparr> = (Finite 3200, Finite 800)"
    by (simp add: displaySize_def Let_def machine_divide_def machine_times_number_def machine_times_def
        double_arithmetic_def double_four)
  then show ?thesis
    by (simp add: drawImageToCanvas_def Let_def set_dimension_def to_unsigned_long_def picture_def)
qed

subsection \<open>The watermark is drawn when there is one\<close>

text \<open>
  C1 as stated fails: with no watermark text configured, an image is drawn
  and nothing else, and a video is rendered with no overlay; in the component
  with a watermark image, an image is drawn and nothing else, and a video is
  rendered with no overlay, while the watermark has not loaded.
\<close>

theorem watermark_needs_text:
  "drawImageToCanvas double_arithmetic False [] example_measureText True
      (Some \<lparr>clientWidth = 400, clientHeight = 300\<rparr>)
      (Some \<lparr>img_width = 1600, img_height = 1200\<rparr>) True =
     Some (Some \<lparr>pixel_width = 400, pixel_height = 300,
                 css = [(''width'', Keyword ''100%''), (''height'', Keyword ''100%'')]\<rparr>,
           [ImageSmoothing True ''low'', ClearRect 0 0 400 300, DrawImage 0 0 400 300]) \<and>
   MediaDisplay Videos [] False None = VideoView [VideoElement] \<and>
   drawImageToCanvas_image_watermark double_arithmetic True
      (Some \<lparr>clientWidth = 400, clientHeight = 300\<rparr>)
      (Some \<lparr>img_width = 1600, img_height = 1200\<rparr>) None True =
     (Some \<lparr>pixel_width = 400, pixel_height = 300,
            css = [(''width'', Keyword ''100%''), (''height'', Keyword ''100%'')]\<rparr>,
      [ImageSmoothing True ''low'', ClearRect 0 0 400 300,
       cover double_arithmetic \<lparr>img_width = 1600, img_height = 1200\<rparr> 400 300]) \<and>
   MediaDisplay_image_watermark Videos False False False None = VideoView [VideoElement]"
  by (simp add: drawImageToCanvas_def displaySize_def Let_def set_dimension_def to_unsigned_long_def
      picture_def MediaDisplay_def media_view_def draw_watermark_image_def
      drawImageToCanvas_image_watermark_def displaySize_container_aspect_def
      MediaDisplay_image_watermark_def)

text \<open>
  C1, amended. In the component with a watermark text, with a rounding that
  keeps sizes, as that of doubles does: when a text is configured that can
  always be drawn (its measured width is a positive number and the loops of
  the tiling are counted, on every canvas; with doubles, every text at least
  one pixel wide), every drawing of an image returns with the watermark
  composited after the picture, the text stroked and filled, rotated by \<open>-\<pi>/4\<close>, at least at the
  centre of the canvas; every rendered video has the watermark canvas after
  the video element, and drawing that overlay for a video of non-zero size
  strokes and fills the text at least at its centre. With no watermark text
  the image is drawn alone and the video has no overlay. In the component
  whose watermark is an image (components/MediaDisplay.tsx): every drawing of
  an image draws the picture and then, exactly when the watermark has loaded,
  the watermark image at the top right; and the overlay of a video is
  rendered exactly when the watermark has loaded.
\<close>

theorem watermark_when_configured:
  "(keeps_sizes A \<and> watermarkText \<noteq> [] \<and> always_drawable A measureText watermarkText \<longrightarrow>
      (\<exists>canvas ops.
         drawImageToCanvas A fullSize watermarkText measureText True container (Some img) True =
           Some (Some canvas,
                 [ImageSmoothing True (if fullSize then ''high'' else ''low''),
                  ClearRect 0 0 (real (pixel_width canvas)) (real (pixel_height canvas)),
                  DrawImage 0 0 (real (pixel_width canvas)) (real (pixel_height canvas))] @ ops) \<and>
         draw_watermark A measureText watermarkText (pixel_width canvas) (pixel_height canvas) = Some ops \<and>
         sublist [Save, Translate (real (pixel_width canvas) / 2) (real (pixel_height canvas) / 2),
                  Rotate (- Math_PI A / 4),
                  StrokeText watermarkText 0 0, FillText watermarkText 0 0, Restore] ops)) \<and>
   (\<exists>canvas. drawImageToCanvas A fullSize [] measureText True container (Some img) True =
      Some (Some canvas,
            [ImageSmoothing True (if fullSize then ''high'' else ''low''),
             ClearRect 0 0 (real (pixel_width canvas)) (real (pixel_height canvas)),
             DrawImage 0 0 (real (pixel_width canvas)) (real (pixel_height canvas))])) \<and>
   MediaDisplay Images watermarkText False None = CanvasView \<and>
   MediaDisplay Videos watermarkText False None =
     VideoView (VideoElement # (if watermarkText \<noteq> [] then [WatermarkCanvas] else [])) \<and>
   (width \<noteq> 0 \<and> height \<noteq> 0 \<and>
    keeps_sizes A \<and> watermarkText \<noteq> [] \<and> always_drawable A measureText watermarkText \<longrightarrow>
      (\<exists>canvas ops.
         drawVideoWatermark A fullSize watermarkText measureText True (Some (width, height)) True =
           Some (Some canvas,
                 ClearRect 0 0 (real (pixel_width canvas)) (real (pixel_height canvas)) # ops) \<and>
         draw_watermark A measureText watermarkText (pixel_width canvas) (pixel_height canvas) = Some ops \<and>
         sublist [Save, Translate (real (pixel_width canvas) / 2) (real (pixel_height canvas) / 2),
                  Rotate (- Math_PI A / 4),
                  StrokeText watermarkText 0 0, FillText watermarkText 0 0, Restore] ops)) \<and>
   (complete_attr watermark \<and> 0 < naturalWidth watermark \<and>
    \<not> overflows A (real (naturalHeight watermark) / real (naturalWidth watermark)) \<longrightarrow>
      (\<exists>canvas.
         drawImageToCanvas_image_watermark A True container (Some img) (Some watermark) True =
           (Some canvas,
            [ImageSmoothing True ''low'',
             ClearRect 0 0 (real (pixel_width canvas)) (real (pixel_height canvas)),
             cover A img (pixel_width canvas) (pixel_height canvas),
             GlobalAlpha (rounded A 0.8),
             DrawWatermarkImage
               (machine_minus A
                  (machine_minus A (real (pixel_width canvas))
                     (machine_times A (real (pixel_width canvas)) (rounded A 0.15))) 10)
               10
               (machine_times A (real (pixel_width canvas)) (rounded A 0.15))
               (machine_times A (machine_times A (real (pixel_width canvas)) (rounded A 0.15))
                  (rounded A (real (naturalHeight watermark) / real (naturalWidth watermark)))),
             GlobalAlpha 1]))) \<and>
   (watermarkRef = None \<or>
    watermarkRef = Some watermark \<and> \<not> (complete_attr watermark \<and> 0 < naturalWidth watermark) \<longrightarrow>
      (\<exists>canvas.
         drawImageToCanvas_image_watermark A True container (Some img) watermarkRef True =
           (Some canvas,
            [ImageSmoothing True ''low'',
             ClearRect 0 0 (real (pixel_width canvas)) (real (pixel_height canvas)),
             cover A img (pixel_width canvas) (pixel_height canvas)]))) \<and>
   MediaDisplay_image_watermark Videos watermarkLoaded watermarkRef_set False None =
     VideoView (VideoElement # (if watermarkLoaded \<and> watermarkRef_set then [WatermarkPicture] else []))"
proof -
  have centre: "\<exists>ops. draw_watermark A measureText watermarkText w h = Some ops \<and>
     sublist [Save, Translate (real w / 2) (real h / 2), Rotate (- Math_PI A / 4),
              StrokeText watermarkText 0 0, FillText watermarkText 0 0, Restore] ops"
    if "keeps_sizes A" "always_drawable A measureText watermarkText"
      "w = set_dimension 300 x" "h = set_dimension 150 y" for w h x y
  proof -
    from that(3,4) have "w \<le> 2147483647" "h \<le> 2147483647"
      by (simp_all add: set_dimension_le)
    with that(2) have "watermark_drawable A measureText watermarkText w h"
      unfolding always_drawable_def by blast
    with that(1) \<open>w \<le> 2147483647\<close> \<open>h \<le> 2147483647\<close> show ?thesis
      by (intro draw_watermark_centre)
  qed
  have a: "keeps_sizes A \<and> watermarkText \<noteq> [] \<and> always_drawable A measureText watermarkText \<longrightarrow>
      (\<exists>canvas ops.
         drawImageToCanvas A fullSize watermarkText measureText True container (Some img) True =
           Some (Some canvas,
                 [ImageSmoothing True (if fullSize then ''high'' else ''low''),
                  ClearRect 0 0 (real (pixel_width canvas)) (real (pixel_height canvas)),
                  DrawImage 0 0 (real (pixel_width canvas)) (real (pixel_height canvas))] @ ops) \<and>
         draw_watermark A measureText watermarkText (pixel_width canvas) (pixel_height canvas) = Some ops \<and>
         sublist [Save, Translate (real (pixel_width canvas) / 2) (real (pixel_height canvas) / 2),
                  Rotate (- Math_PI A / 4),
                  StrokeText watermarkText 0 0, FillText watermarkText 0 0, Restore] ops)"
  proof
    assume h: "keeps_sizes A \<and> watermarkText \<noteq> [] \<and> always_drawable A measureText watermarkText"
    define W where "W = set_dimension 300 (fst (displaySize A fullSize container img))"
    define H where "H = set_dimension 150 (snd (displaySize A fullSize container img))"
    from h centre [OF _ _ W_def H_def] obtain ops where
      d: "draw_watermark A measureText watermarkText W H = Some ops" and
      c: "sublist [Save, Translate (real W / 2) (real H / 2), Rotate (- Math_PI A / 4),
                  StrokeText watermarkText 0 0, FillText watermarkText 0 0, Restore] ops"
      by blast
    from h have t: "watermarkText \<noteq> []"
      by simp
    from d c t show "\<exists>canvas ops.
         drawImageToCanvas A fullSize watermarkText measureText True container (Some img) True =
           Some (Some canvas,
                 [ImageSmoothing True (if fullSize then ''high'' else ''low''),
                  ClearRect 0 0 (real (pixel_width canvas)) (real (pixel_height canvas)),
                  DrawImage 0 0 (real (pixel_width canvas)) (real (pixel_height canvas))] @ ops) \<and>
         draw_watermark A measureText watermarkText (pixel_width canvas) (pixel_height canvas) = Some ops \<and>
         sublist [Save, Translate (real (pixel_width canvas) / 2) (real (pixel_height canvas) / 2),
                  Rotate (- Math_PI A / 4),
                  StrokeText watermarkText 0 0, FillText watermarkText 0 0, Restore] ops"
      unfolding drawImageToCanvas_def W_def H_def
      by (simp add: Let_def picture_def)
  qed
  have b: "\<exists>canvas. drawImageToCanvas A fullSize [] measureText True container (Some img) True =
      Some (Some canvas,
            [ImageSmoothing True (if fullSize then ''high'' else ''low''),
             ClearRect 0 0 (real (pixel_width canvas)) (real (pixel_height canvas)),
             DrawImage 0 0 (real (pixel_width canvas)) (real (pixel_height canvas))])"
    by (simp add: drawImageToCanvas_def Let_def picture_def)
  have c: "width \<noteq> 0 \<and> height \<noteq> 0 \<and>
    keeps_sizes A \<and> watermarkText \<noteq> [] \<and> always_drawable A measureText watermarkText \<longrightarrow>
      (\<exists>canvas ops.
         drawVideoWatermark A fullSize watermarkText measureText True (Some (width, height)) True =
           Some (Some canvas,
                 ClearRect 0 0 (real (pixel_width canvas)) (real (pixel_height canvas)) # ops) \<and>
         draw_watermark A measureText watermarkText (pixel_width canvas) (pixel_height canvas) = Some ops \<and>
         sublist [Save, Translate (real (pixel_width canvas) / 2) (real (pixel_height canvas) / 2),
                  Rotate (- Math_PI A / 4),
                  StrokeText watermarkText 0 0, FillText watermarkText 0 0, Restore] ops)"
  proof
    assume h: "width \<noteq> 0 \<and> height \<noteq> 0 \<and>
      keeps_sizes A \<and> watermarkText \<noteq> [] \<and> always_drawable A measureText watermarkText"
    define W where "W = set_dimension 300 (Finite width)"
    define H where "H = set_dimension 150 (Finite height)"
    from h centre [OF _ _ W_def H_def] obtain ops where
      d: "draw_watermark A measureText watermarkText W H = Some ops" and
      c: "sublist [Save, Translate (real W / 2) (real H / 2), Rotate (- Math_PI A / 4),
                  StrokeText watermarkText 0 0, FillText watermarkText 0 0, Restore] ops"
      by blast
    from h have t: "watermarkText \<noteq> []" "width \<noteq> 0" "height \<noteq> 0"
      by simp_all
    from d c t show "\<exists>canvas ops.
         drawVideoWatermark A fullSize watermarkText measureText True (Some (width, height)) True =
           Some (Some canvas,
                 ClearRect 0 0 (real (pixel_width canvas)) (real (pixel_height canvas)) # ops) \<and>
         draw_watermark A measureText watermarkText (pixel_width canvas) (pixel_height canvas) = Some ops \<and>
         sublist [Save, Translate (real (pixel_width canvas) / 2) (real (pixel_height canvas) / 2),
                  Rotate (- Math_PI A / 4),
                  StrokeText watermarkText 0 0, FillText watermarkText 0 0, Restore] ops"
      unfolding drawVideoWatermark_def W_def H_def
      by (simp add: Let_def)
  qed
  have d: "complete_attr watermark \<and> 0 < naturalWidth watermark \<and>
    \<not> overflows A (real (naturalHeight watermark) / real (naturalWidth watermark)) \<longrightarrow>
      (\<exists>canvas.
         drawImageToCanvas_image_watermark A True container (Some img) (Some watermark) True =
           (Some canvas,
            [ImageSmoothing True ''low'',
             ClearRect 0 0 (real (pixel_width canvas)) (real (pixel_height canvas)),
             cover A img (pixel_width canvas) (pixel_height canvas),
             GlobalAlpha (rounded A 0.8),
             DrawWatermarkImage
               (machine_minus A
                  (machine_minus A (real (pixel_width canvas))
                     (machine_times A (real (pixel_width canvas)) (rounded A 0.15))) 10)
               10
               (machine_times A (real (pixel_width canvas)) (rounded A 0.15))
               (machine_times A (machine_times A (real (pixel_width canvas)) (rounded A 0.15))
                  (rounded A (real (naturalHeight watermark) / real (naturalWidth watermark)))),
             GlobalAlpha 1]))"
    by (simp add: drawImageToCanvas_image_watermark_def draw_watermark_image_def Let_def
        machine_divide_def machine_times_number_def)
  have e: "watermarkRef = None \<or>
    watermarkRef = Some watermark \<and> \<not> (complete_attr watermark \<and> 0 < naturalWidth watermark) \<longrightarrow>
      (\<exists>canvas.
         drawImageToCanvas_image_watermark A True container (Some img) watermarkRef True =
           (Some canvas,
            [ImageSmoothing True ''low'',
             ClearRect 0 0 (real (pixel_width canvas)) (real (pixel_height canvas)),
             cover A img (pixel_width canvas) (pixel_height canvas)]))"
    by (auto simp add: drawImageToCanvas_image_watermark_def draw_watermark_image_def Let_def)
  have g: "MediaDisplay Images watermarkText False None = CanvasView"
    "MediaDisplay Videos watermarkText False None =
     VideoView (VideoElement # (if watermarkText \<noteq> [] then [WatermarkCanvas] else []))"
    "MediaDisplay_image_watermark Videos watermarkLoaded watermarkRef_set False None =
     VideoView (VideoElement # (if watermarkLoaded \<and> watermarkRef_set then [WatermarkPicture] else []))"
    by (simp_all add: MediaDisplay_def MediaDisplay_image_watermark_def media_view_def)
  from a b c d e g show ?thesis
    by (intro conjI)
qed

theorem watermark_when_configured_witness:
  "(keeps_sizes double_arithmetic \<and> ''TMBC'' \<noteq> [] \<and>
    always_drawable double_arithmetic example_measureText ''TMBC'') \<and>
   (\<exists>canvas ops.
      drawImageToCanvas double_arithmetic False ''TMBC'' example_measureText True
          (Some \<lparr>clientWidth = 400, clientHeight = 300\<rparr>)
          (Some \<lparr>img_width = 1600, img_height = 1200\<rparr>) True =
        Some (Some canvas,
              [ImageSmoothing True ''low'',
               ClearRect 0 0 (real (pixel_width canvas)) (real (pixel_height canvas)),
               DrawImage 0 0 (real (pixel_width canvas)) (real (pixel_height canvas))] @ ops) \<and>
      draw_watermark double_arithmetic example_measureText ''TMBC'' (pixel_width canvas) (pixel_height canvas) =
        Some ops \<and>
      sublist [Save, Translate (real (pixel_width canvas) / 2) (real (pixel_height canvas) / 2),
               Rotate (- Math_PI double_arithmetic / 4),
               StrokeText ''TMBC'' 0 0, FillText ''TMBC'' 0 0, Restore] ops) \<and>
   ((640 :: real) \<noteq> 0 \<and> (360 :: real) \<noteq> 0 \<and>
    keeps_sizes double_arithmetic \<and> ''TMBC'' \<noteq> [] \<and>
    always_drawable double_arithmetic example_measureText ''TMBC'') \<and>
   (\<exists>canvas ops.
      drawVideoWatermark double_arithmetic False ''TMBC'' example_measureText True (Some (640, 360)) True =
        Some (Some canvas,
              ClearRect 0 0 (real (pixel_width canvas)) (real (pixel_height canvas)) # ops) \<and>
      draw_watermark double_arithmetic example_measureText ''TMBC'' (pixel_width canvas) (pixel_height canvas) =
        Some ops \<and>
      sublist [Save, Translate (real (pixel_width canvas) / 2) (real (pixel_height canvas) / 2),
               Rotate (- Math_PI double_arithmetic / 4),
               StrokeText ''TMBC'' 0 0, FillText ''TMBC'' 0 0, Restore] ops) \<and>
   (complete_attr \<lparr>complete_attr = True, naturalWidth = 200, naturalHeight = 100\<rparr> \<and>
    0 < naturalWidth \<lparr>complete_attr = True, naturalWidth = 200, naturalHeight = 100\<rparr> \<and>
    \<not> overflows double_arithmetic
        (real (naturalHeight \<lparr>complete_attr = True, naturalWidth = 200, naturalHeight = 100\<rparr>) /
         real (naturalWidth \<lparr>complete_attr = True, naturalWidth = 200, naturalHeight = 100\<rparr>))) \<and>
   drawImageToCanvas_image_watermark double_arithmetic True
       (Some \<lparr>clientWidth = 400, clientHeight = 300\<rparr>)
       (Some \<lparr>img_width = 1600, img_height = 1200\<rparr>)
       (Some \<lparr>complete_attr = True, naturalWidth = 200, naturalHeight = 100\<rparr>) True =
     (Some \<lparr>pixel_width = 400, pixel_height = 300,
            css = [(''width'', Keyword ''100%''), (''height'', Keyword ''100%'')]\<rparr>,
      [ImageSmoothing True ''low'', ClearRect 0 0 400 300,
       cover double_arithmetic \<lparr>img_width = 1600, img_height = 1200\<rparr> 400 300,
       GlobalAlpha (binary64 0.8),
       DrawWatermarkImage (binary64 (binary64 (400 - binary64 (400 * binary64 0.15)) - 10)) 10
         (binary64 (400 * binary64 0.15))
         (binary64 (binary64 (400 * binary64 0.15) * binary64 (1 / 2))),
       GlobalAlpha 1]) \<and>
   drawImageToCanvas_image_watermark double_arithmetic True
       (Some \<lparr>clientWidth = 400, clientHeight = 300\<rparr>)
       (Some \<lparr>img_width = 1600, img_height = 1200\<rparr>)
       (Some \<lparr>complete_attr = False, naturalWidth = 0, naturalHeight = 0\<rparr>) True =
     (Some \<lparr>pixel_width = 400, pixel_height = 300,
            css = [(''width'', Keyword ''100%''), (''height'', Keyword ''100%'')]\<rparr>,
      [ImageSmoothing True ''low'', ClearRect 0 0 400 300,
       cover double_arithmetic \<lparr>img_width = 1600, img_height = 1200\<rparr> 400 300])"
proof -
  note t = watermark_when_configured [where A = double_arithmetic and watermarkText = "''TMBC''"
      and measureText = example_measureText and fullSize = False
      and container = "Some \<lparr>clientWidth = 400, clientHeight = 300\<rparr>"
      and img = "\<lparr>img_width = 1600, img_height = 1200\<rparr>"
      and width = 640 and height = 360]
  note t1 = t [where watermark = "\<lparr>complete_attr = True, naturalWidth = 200, naturalHeight = 100\<rparr>"
      and watermarkRef = None]
  note t2 = t [where watermark = "\<lparr>complete_attr = False, naturalWidth = 0, naturalHeight = 0\<rparr>"
      and watermarkRef = "Some \<lparr>complete_attr = False, naturalWidth = 0, naturalHeight = 0\<rparr>"]
  have "binary64 (real_of_int 48) = real_of_int 48"
    by (rule binary64_of_int) simp
  then have drawable: "always_drawable double_arithmetic example_measureText ''TMBC''"
    by (intro double_always_drawable) (simp add: example_measureText_def)
  have h1: "keeps_sizes double_arithmetic \<and> ''TMBC'' \<noteq> [] \<and>
    always_drawable double_arithmetic example_measureText ''TMBC''"
    by (simp add: double_keeps_sizes drawable)
  have h2: "(640 :: real) \<noteq> 0 \<and> (360 :: real) \<noteq> 0 \<and>
    keeps_sizes double_arithmetic \<and> ''TMBC'' \<noteq> [] \<and>
    always_drawable double_arithmetic example_measureText ''TMBC''"
    by (simp add: double_keeps_sizes drawable)
  have h3: "complete_attr \<lparr>complete_attr = True, naturalWidth = 200, naturalHeight = 100\<rparr> \<and>
    0 < naturalWidth \<lparr>complete_attr = True, naturalWidth = 200, naturalHeight = 100\<rparr> \<and>
    \<not> overflows double_arithmetic
        (real (naturalHeight \<lparr>complete_attr = True, naturalWidth = 200, naturalHeight = 100\<rparr>) /
         real (naturalWidth \<lparr>complete_attr = True, naturalWidth = 200, naturalHeight = 100\<rparr>))"
    by (simp add: double_arithmetic_def)
  have h4: "Some \<lparr>complete_attr = False, naturalWidth = 0, naturalHeight = 0\<rparr> = None \<or>
     Some \<lparr>complete_attr = False, naturalWidth = 0, naturalHeight = 0\<rparr> =
       Some \<lparr>complete_attr = False, naturalWidth = 0, naturalHeight = 0\<rparr> \<and>
     \<not> (complete_attr \<lparr>complete_attr = False, naturalWidth = 0, naturalHeight = 0\<rparr> \<and>
        0 < naturalWidth \<lparr>complete_attr = False, naturalWidth = 0, naturalHeight = 0\<rparr>)"
    by simp
  have size: "set_dimension 300 (fst (displaySize_container_aspect double_arithmetic (Some \<lparr>clientWidth = 400, clientHeight = 300\<rparr>)
                                    \<lparr>img_width = 1600, img_height = 1200\<rparr>)) = 400"
    "set_dimension 150 (snd (displaySize_container_aspect double_arithmetic (Some \<lparr>clientWidth = 400, clientHeight = 300\<rparr>)
                                    \<lparr>img_width = 1600, img_height = 1200\<rparr>)) = 300"
    by (simp_all add: displaySize_container_aspect_def Let_def set_dimension_def to_unsigned_long_def)
  from t1 [THEN conjunct1, THEN mp, OF h1]
  have c1: "\<exists>canvas ops.
      drawImageToCanvas double_arithmetic False ''TMBC'' example_measureText True
          (Some \<lparr>clientWidth = 400, clientHeight = 300\<rparr>)
          (Some \<lparr>img_width = 1600, img_height = 1200\<rparr>) True =
        Some (Some canvas,
              [ImageSmoothing True ''low'',
               ClearRect 0 0 (real (pixel_width canvas)) (real (pixel_height canvas)),
               DrawImage 0 0 (real (pixel_width canvas)) (real (pixel_height canvas))] @ ops) \<and>
      draw_watermark double_arithmetic example_measureText ''TMBC'' (pixel_width canvas) (pixel_height canvas) =
        Some ops \<and>
      sublist [Save, Translate (real (pixel_width canvas) / 2) (real (pixel_height canvas) / 2),
               Rotate (- Math_PI double_arithmetic / 4),
               StrokeText ''TMBC'' 0 0, FillText ''TMBC'' 0 0, Restore] ops"
    by (simp only: if_False)
  note c2 = t1 [THEN conjunct2, THEN conjunct2, THEN conjunct2, THEN conjunct2, THEN conjunct1, THEN mp, OF h2]
  from t1 [THEN conjunct2, THEN conjunct2, THEN conjunct2, THEN conjunct2, THEN conjunct2,
      THEN conjunct1, THEN mp, OF h3]
  have c3: "drawImageToCanvas_image_watermark double_arithmetic True
       (Some \<lparr>clientWidth = 400, clientHeight = 300\<rparr>)
       (Some \<lparr>img_width = 1600, img_height = 1200\<rparr>)
       (Some \<lparr>complete_attr = True, naturalWidth = 200, naturalHeight = 100\<rparr>) True =
     (Some \<lparr>pixel_width = 400, pixel_height = 300,
            css = [(''width'', Keyword ''100%''), (''height'', Keyword ''100%'')]\<rparr>,
      [ImageSmoothing True ''low'', ClearRect 0 0 400 300,
       cover double_arithmetic \<lparr>img_width = 1600, img_height = 1200\<rparr> 400 300,
       GlobalAlpha (binary64 0.8),
       DrawWatermarkImage (binary64 (binary64 (400 - binary64 (400 * binary64 0.15)) - 10)) 10
         (binary64 (400 * binary64 0.15))
         (binary64 (binary64 (400 * binary64 0.15) * binary64 (1 / 2))),
       GlobalAlpha 1])"
    by (auto simp add: drawImageToCanvas_image_watermark_def Let_def size machine_minus_def machine_times_def
        double_rounded)
  from t2 [THEN conjunct2, THEN conjunct2, THEN conjunct2, THEN conjunct2, THEN conjunct2,
      THEN conjunct2, THEN conjunct1, THEN mp, OF h4]
  have c4: "drawImageToCanvas_image_watermark double_arithmetic True
       (Some \<lparr>clientWidth = 400, clientHeight = 300\<rparr>)
       (Some \<lparr>img_width = 1600, img_height = 1200\<rparr>)
       (Some \<lparr>complete_attr = False, naturalWidth = 0, naturalHeight = 0\<rparr>) True =
     (Some \<lparr>pixel_width = 400, pixel_height = 300,
            css = [(''width'', Keyword ''100%''), (''height'', Keyword ''100%'')]\<rparr>,
      [ImageSmoothing True ''low'', ClearRect 0 0 400 300,
       cover double_arithmetic \<lparr>img_width = 1600, img_height = 1200\<rparr> 400 300])"
    by (auto simp add: drawImageToCanvas_image_watermark_def Let_def size)
  from h1 c1 h2 c2 h3 c3 c4 show ?thesis
    by blast
qed

end
